theory Spec2Isabelle
  imports Complex_Main "HOL-Library.Monad_Syntax"
begin

section \<open>Python string primitives\<close>

text \<open>
  Python strings are modelled as \<open>string\<close>; a \<open>char\<close> stands for a code point below 256.
  \<open>isspace\<close> is the set of such code points that \<open>str.isspace\<close>, \<open>str.split()\<close> and
  \<open>str.strip()\<close> treat as whitespace: TAB, LF, VT, FF, CR, FS, GS, RS, US, space, NEL and
  the no-break space.
\<close>

definition isspace :: "char \<Rightarrow> bool" where
  "isspace c = (of_char c \<in> {9, 10, 11, 12, 13, 28, 29, 30, 31, 32, 133, 160 :: nat})"

text \<open>\<open>s.strip()\<close>: whitespace removed at both ends.\<close>

definition strip :: "string \<Rightarrow> string" where
  "strip s = rev (dropWhile isspace (rev (dropWhile isspace s)))"

text \<open>
  \<open>s.lower()\<close> on code points below 256: the upper-case letters A to Z and the
  Latin-1 capitals 192 to 222 (the multiplication sign 215 apart) move up by 32. The bit
  of value 32 is clear in both ranges, so adding 32 sets it.
\<close>

definition is_upper :: "char \<Rightarrow> bool" where
  "is_upper c =
     (let n = (of_char c :: nat)
      in (65 \<le> n \<and> n \<le> 90) \<or> (192 \<le> n \<and> n \<le> 222 \<and> n \<noteq> 215))"

definition lower_char :: "char \<Rightarrow> char" where
  "lower_char c =
     (if is_upper c
      then (case c of Char b0 b1 b2 b3 b4 b5 b6 b7 \<Rightarrow> Char b0 b1 b2 b3 b4 True b6 b7)
      else c)"

definition lower :: "string \<Rightarrow> string" where
  "lower s = map lower_char s"

text \<open>
  \<open>s.split()\<close> with no separator: the maximal runs of non-whitespace characters, in
  order. \<open>words_of w s\<close> scans \<open>s\<close> with the token \<open>w\<close> read so far.
\<close>

fun words_of :: "string \<Rightarrow> string \<Rightarrow> string list" where
  "words_of w [] = (if w = [] then [] else [w])"
| "words_of w (c # cs) =
     (if isspace c then (if w = [] then words_of [] cs else w # words_of [] cs)
      else words_of (w @ [c]) cs)"

definition split_ws :: "string \<Rightarrow> string list" where
  "split_ws s = words_of [] s"

text \<open>\<open>s.split(sep)\<close> for a one-character separator: every separator cuts, empty pieces are kept.\<close>

fun split_on :: "char \<Rightarrow> string \<Rightarrow> string list" where
  "split_on c [] = [[]]"
| "split_on c (x # xs) =
     (if x = c then [] # split_on c xs
      else (case split_on c xs of [] \<Rightarrow> [[x]] | p # ps \<Rightarrow> (x # p) # ps))"

text \<open>\<open>sep.join(xs)\<close>.\<close>

fun join :: "string \<Rightarrow> string list \<Rightarrow> string" where
  "join sep [] = []"
| "join sep [x] = x"
| "join sep (x # y # ys) = x @ sep @ join sep (y # ys)"

text \<open>
  \<open>s.splitlines()\<close>: the lines of \<open>s\<close> without their line breaks; CR LF is one break, and
  a break at the very end opens no further line. \<open>lines_of l s\<close> scans \<open>s\<close> with the line
  \<open>l\<close> read so far. The line breaks below 256 are LF, VT, FF, CR, FS, GS, RS and NEL.
\<close>

definition is_linebreak :: "char \<Rightarrow> bool" where
  "is_linebreak c = (of_char c \<in> {10, 11, 12, 13, 28, 29, 30, 133 :: nat})"

fun lines_of :: "string \<Rightarrow> string \<Rightarrow> string list" where
  "lines_of l [] = (if l = [] then [] else [l])"
| "lines_of l [c] = (if is_linebreak c then [l] else [l @ [c]])"
| "lines_of l (c # d # cs) =
     (if c = CHR 0x0D \<and> d = CHR 0x0A then l # lines_of [] cs
      else if is_linebreak c then l # lines_of [] (d # cs)
      else lines_of (l @ [c]) (d # cs))"

definition splitlines :: "string \<Rightarrow> string list" where
  "splitlines s = lines_of [] s"

text \<open>
  \<open>s.split("  ")\<close>: \<open>s\<close> cut at every pair of spaces, read from the left; empty pieces are
  kept. \<open>split_double_space p s\<close> scans \<open>s\<close> with the piece \<open>p\<close> read so far.
\<close>

fun split_double_space :: "string \<Rightarrow> string \<Rightarrow> string list" where
  "split_double_space p [] = [p]"
| "split_double_space p [c] = [p @ [c]]"
| "split_double_space p (c # d # cs) =
     (if c = CHR '' '' \<and> d = CHR '' '' then p # split_double_space [] cs
      else split_double_space (p @ [c]) (d # cs))"

text \<open>\<open>xs[:n]\<close> for a Python integer \<open>n\<close>: a negative \<open>n\<close> counts from the end.\<close>

definition slice_to :: "int \<Rightarrow> 'a list \<Rightarrow> 'a list" where
  "slice_to n xs = (if 0 \<le> n then take (nat n) xs else take (length xs - nat (- n)) xs)"

text \<open>\<open>xs[a:b]\<close> for non-negative \<open>a\<close> and \<open>b\<close>.\<close>

definition slice :: "nat \<Rightarrow> nat \<Rightarrow> 'a list \<Rightarrow> 'a list" where
  "slice a b xs = take (b - a) (drop a xs)"

text \<open>\<open>sub in s\<close> on strings: \<open>sub\<close> occurs in \<open>s\<close> as a contiguous run.\<close>

fun starts_with :: "string \<Rightarrow> string \<Rightarrow> bool" where
  "starts_with s [] = True"
| "starts_with [] (p # ps) = False"
| "starts_with (c # cs) (p # ps) = (c = p \<and> starts_with cs ps)"

fun str_in :: "string \<Rightarrow> string \<Rightarrow> bool" where
  "str_in sub [] = (sub = [])"
| "str_in sub (c # cs) = (starts_with (c # cs) sub \<or> str_in sub cs)"

section \<open>Enricher: truncation (llm_enricher/worker.py)\<close>

definition truncate_text :: "string \<Rightarrow> int \<Rightarrow> string" where
  "truncate_text text max_chars =
     (if int (length text) \<le> max_chars then text
      else let sentences = split_on (CHR ''.'') (slice_to max_chars text)
           in if length sentences > 1 then join ''.'' (butlast sentences) @ ''.''
              else slice_to max_chars text @ ''...'')"

text \<open>The prefix of \<open>s\<close> up to and including its last \<open>c\<close> (empty when \<open>c\<close> does not occur).\<close>

definition upto_last :: "char \<Rightarrow> string \<Rightarrow> string" where
  "upto_last c s = rev (dropWhile (\<lambda>x. x \<noteq> c) (rev s))"

section \<open>Shared article model (shared/schema/models.py)\<close>

text \<open>
  A \<open>datetime\<close> is a UTC instant in seconds since the epoch, with its fraction. A
  JSON-like value is what a \<open>Dict[str, Any]\<close> holds; \<open>JTime\<close> is a datetime, or a
  string that the model validation parses to that datetime. Floats are read as reals.
\<close>

type_synonym datetime = real

datatype json =
    JNull
  | JBool bool
  | JInt int
  | JNum real
  | JStr string
  | JTime datetime
  | JList "json list"
  | JObj "(string \<times> json) list"

type_synonym pydict = "(string \<times> json) list"

type_synonym metadata = "string \<rightharpoonup> json"

datatype SentimentType = POSITIVE | NEGATIVE | NEUTRAL

datatype error = ValidationError | ValueError | KafkaError

record RawArticle =
  r_id :: string
  r_url :: string
  r_title :: string
  r_content :: string
  r_author :: "string option"
  r_source :: string
  r_published_at :: datetime
  r_scraped_at :: datetime
  r_metadata :: metadata

record CleanedArticle =
  c_id :: string
  c_url :: string
  c_title :: string
  c_text :: string
  c_author :: "string option"
  c_source :: string
  c_published_at :: datetime
  c_scraped_at :: datetime
  c_content_hash :: string
  c_is_duplicate :: bool
  c_metadata :: metadata

record NormalizedArticle =
  n_id :: string
  n_url :: string
  n_title :: string
  n_text :: string
  n_author :: "string option"
  n_source :: string
  n_published_at :: datetime
  n_scraped_at :: datetime
  n_content_hash :: string
  n_language :: string
  n_translated_title :: "string option"
  n_translated_text :: "string option"
  n_word_count :: int
  n_metadata :: metadata

record EnrichedArticle =
  e_id :: string
  e_url :: string
  e_title :: string
  e_text :: string
  e_author :: "string option"
  e_source :: string
  e_published_at :: datetime
  e_scraped_at :: datetime
  e_content_hash :: string
  e_language :: string
  e_translated_title :: "string option"
  e_translated_text :: "string option"
  e_word_count :: int
  e_summary :: string
  e_topics :: "string list"
  e_entities :: "string list"
  e_sentiment :: SentimentType
  e_sentiment_score :: real
  e_embeddings :: "real list"
  e_metadata :: metadata

section \<open>Parser and deduper (parser_deduper/worker.py, shared/utils/helpers.py)\<close>

text \<open>
  \<open>create_article_hash\<close>. The digest \<open>hashlib.sha256(s.encode('utf-8')).hexdigest()\<close> is a
  library function; it is the parameter \<open>sha256_hex\<close>.
\<close>

definition create_article_hash :: "(string \<Rightarrow> string) \<Rightarrow> string \<Rightarrow> string \<Rightarrow> string" where
  "create_article_hash sha256_hex title content =
     (let combined = lower (strip title) @ lower (strip content) in sha256_hex combined)"

text \<open>
  \<open>clean_html\<close>. The HTML parser is a library: \<open>get_text\<close> stands for parsing the
  markup, removing the \<open>script\<close> and \<open>style\<close> elements and extracting the text;
  \<open>None\<close> is an exception raised there. The whitespace clean-up is the function's own.
\<close>

definition clean_html :: "(string \<Rightarrow> string option) \<Rightarrow> string \<Rightarrow> string option" where
  "clean_html get_text html_content =
     (case get_text html_content of
        None \<Rightarrow> None
      | Some text \<Rightarrow>
          (let lines = map strip (splitlines text);
               chunks = concat (map (\<lambda>line. map strip (split_double_space [] line)) lines)
           in Some (join '' '' [chunk \<leftarrow> chunks. chunk \<noteq> []])))"

text \<open>
  \<open>clean_article_text\<close>. An exception of \<open>clean_html\<close> is caught and gives the empty
  string, as a text that is too short does.
\<close>

definition clean_article_text :: "(string \<Rightarrow> string option) \<Rightarrow> string \<Rightarrow> string" where
  "clean_article_text get_text raw_content =
     (case clean_html get_text raw_content of
        None \<Rightarrow> []
      | Some t \<Rightarrow>
          (let cleaned_text = join '' '' (split_ws t)
           in if length (strip cleaned_text) < 100 then [] else strip cleaned_text))"

text \<open>
  The worker's state: the in-process set \<open>seen_hashes\<close>, the key/value store (each key
  with the instant at which it expires) and the configured window.
  What happens around one message is its \<open>env\<close>: the instant \<open>now\<close>, whether a call to
  the store raises, and whether the bus accepts the publish.
\<close>

datatype redis_fault = Redis_ok | Exists_raises | Setex_raises

record deduper =
  seen_hashes :: "string set"
  redis :: "string \<rightharpoonup> int"
  dedup_window_hours :: int

record env =
  now :: int
  fault :: redis_fault
  send_ok :: bool

definition dedup_key_prefix :: string where
  "dedup_key_prefix = ''article_hash:''"

definition redis_exists :: "int \<Rightarrow> (string \<rightharpoonup> int) \<Rightarrow> string \<Rightarrow> bool" where
  "redis_exists t r k = (case r k of None \<Rightarrow> False | Some expiry \<Rightarrow> t < expiry)"

text \<open>The \<open>except\<close> branch of \<open>is_duplicate\<close>: the in-process set alone.\<close>

definition local_fallback :: "string \<Rightarrow> deduper \<Rightarrow> bool \<times> deduper" where
  "local_fallback content_hash d =
     (if content_hash \<in> seen_hashes d then (True, d)
      else (False, d\<lparr>seen_hashes := insert content_hash (seen_hashes d)\<rparr>))"

text \<open>\<open>setex\<close> with a time to live that is not positive is refused by the store.\<close>

definition is_duplicate :: "env \<Rightarrow> string \<Rightarrow> deduper \<Rightarrow> bool \<times> deduper" where
  "is_duplicate e content_hash d =
     (if content_hash \<in> seen_hashes d then (True, d)
      else if fault e = Exists_raises then local_fallback content_hash d
      else let redis_key = dedup_key_prefix @ content_hash
           in if redis_exists (now e) (redis d) redis_key then (True, d)
              else let ttl = dedup_window_hours d * 3600
                   in if fault e = Setex_raises \<or> ttl \<le> 0 then local_fallback content_hash d
                      else (False, d\<lparr>redis := (redis d)(redis_key \<mapsto> now e + ttl),
                                      seen_hashes := insert content_hash (seen_hashes d)\<rparr>))"

text \<open>
  \<open>process_article\<close>. A message value that fails the validation of \<open>RawArticle\<close> is \<open>None\<close>.
\<close>

definition process_article ::
  "(string \<Rightarrow> string option) \<Rightarrow> (string \<Rightarrow> string) \<Rightarrow> env \<Rightarrow> RawArticle option \<Rightarrow> deduper
     \<Rightarrow> (error + CleanedArticle) \<times> deduper" where
  "process_article get_text sha256_hex e raw_article_data d =
     (case raw_article_data of
        None \<Rightarrow> (Inl ValidationError, d)
      | Some raw_article \<Rightarrow>
          (let cleaned_text = clean_article_text get_text (r_content raw_article)
           in if cleaned_text = [] then (Inl ValueError, d)
              else let content_hash = create_article_hash sha256_hex (r_title raw_article) cleaned_text;
                       (dup, d') = is_duplicate e content_hash d
                   in (Inr \<lparr>c_id = r_id raw_article,
                            c_url = r_url raw_article,
                            c_title = strip (r_title raw_article),
                            c_text = cleaned_text,
                            c_author = r_author raw_article,
                            c_source = r_source raw_article,
                            c_published_at = r_published_at raw_article,
                            c_scraped_at = r_scraped_at raw_article,
                            c_content_hash = content_hash,
                            c_is_duplicate = dup,
                            c_metadata = r_metadata raw_article\<rparr>, d')))"

text \<open>
  One turn of the consume loop of \<open>process_messages\<close>: the record published to the cleaned
  topic, if any, and the state afterwards. Every exception ends the turn, not the loop.
\<close>

definition process_message ::
  "(string \<Rightarrow> string option) \<Rightarrow> (string \<Rightarrow> string) \<Rightarrow> env \<Rightarrow> RawArticle option \<Rightarrow> deduper
     \<Rightarrow> CleanedArticle option \<times> deduper" where
  "process_message get_text sha256_hex e m d =
     (case process_article get_text sha256_hex e m d of
        (Inl err, d') \<Rightarrow> (None, d')
      | (Inr cleaned_article, d') \<Rightarrow>
          (if c_is_duplicate cleaned_article then (None, d')
           else if send_ok e then (Some cleaned_article, d')
           else (None, d')))"

fun process_messages ::
  "(string \<Rightarrow> string option) \<Rightarrow> (string \<Rightarrow> string) \<Rightarrow> (env \<times> RawArticle option) list \<Rightarrow> deduper
     \<Rightarrow> CleanedArticle list \<times> deduper" where
  "process_messages get_text sha256_hex [] d = ([], d)"
| "process_messages get_text sha256_hex ((e, m) # rest) d =
     (let (out, d') = process_message get_text sha256_hex e m d;
          (outs, d'') = process_messages get_text sha256_hex rest d'
      in (case out of None \<Rightarrow> outs | Some a \<Rightarrow> a # outs, d''))"

text \<open>\<open>cleanup_cache\<close>. No method of the worker calls it.\<close>

definition cleanup_cache :: "deduper \<Rightarrow> deduper" where
  "cleanup_cache d = (if card (seen_hashes d) > 10000 then d\<lparr>seen_hashes := {}\<rparr> else d)"

text \<open>The content hash an article gets, and the key the claims compare articles by.\<close>

definition hash_of :: "(string \<Rightarrow> string option) \<Rightarrow> (string \<Rightarrow> string) \<Rightarrow> RawArticle \<Rightarrow> string" where
  "hash_of get_text sha256_hex a =
     create_article_hash sha256_hex (r_title a) (clean_article_text get_text (r_content a))"

definition content_key :: "(string \<Rightarrow> string option) \<Rightarrow> RawArticle \<Rightarrow> string \<times> string" where
  "content_key get_text a =
     (lower (strip (r_title a)), lower (strip (clean_article_text get_text (r_content a))))"

section \<open>Normalizer (normalizer/worker.py)\<close>

text \<open>
  The language detector and the translation client are external. \<open>langdetect\<close> returns
  \<open>None\<close> where the detector raises. A translation client answers a detection with the
  language and whether the confidence is above 0.8, and a translation with the translated
  text; \<open>None\<close> is an exception.
\<close>

record translator_client =
  t_detect_language :: "string \<Rightarrow> (string \<times> bool) option"
  t_translate :: "string \<Rightarrow> string \<Rightarrow> string option"

record normalizer =
  enable_translation :: bool
  target_language :: string
  translator :: "translator_client option"
  langdetect :: "string \<Rightarrow> string option"

definition detect_language :: "(string \<Rightarrow> string option) \<Rightarrow> string \<Rightarrow> string" where
  "detect_language detect text = (case detect text of None \<Rightarrow> ''en'' | Some l \<Rightarrow> l)"

definition detect_article_language :: "normalizer \<Rightarrow> string \<Rightarrow> string" where
  "detect_article_language nz text =
     (let language = detect_language (langdetect nz) text
      in case translator nz of
           None \<Rightarrow> language
         | Some tr \<Rightarrow>
             (case t_detect_language tr (take 1000 text) of
                None \<Rightarrow> language
              | Some (l, high_confidence) \<Rightarrow> if high_confidence then l else language))"

definition translate_text :: "normalizer \<Rightarrow> string \<Rightarrow> string option" where
  "translate_text nz text =
     (if \<not> enable_translation nz then None
      else case translator nz of
             None \<Rightarrow> None
           | Some tr \<Rightarrow>
               (case t_detect_language tr (take 1000 text) of
                  None \<Rightarrow> None
                | Some (detected_lang, c) \<Rightarrow>
                    if detected_lang = target_language nz then None
                    else t_translate tr text (target_language nz)))"

definition count_words :: "string \<Rightarrow> int" where
  "count_words text = (let words = split_ws text in int (length [word \<leftarrow> words. strip word \<noteq> []]))"

text \<open>A message value that fails the validation of \<open>CleanedArticle\<close> is \<open>None\<close>.\<close>

definition normalize_article :: "normalizer \<Rightarrow> CleanedArticle option \<Rightarrow> error + NormalizedArticle" where
  "normalize_article nz cleaned_article_data =
     (case cleaned_article_data of
        None \<Rightarrow> Inl ValidationError
      | Some cleaned_article \<Rightarrow>
          (let language = detect_article_language nz (c_text cleaned_article);
               translate = enable_translation nz \<and> language \<noteq> target_language nz;
               translated_title =
                 (if translate then translate_text nz (c_title cleaned_article) else None);
               text_to_translate =
                 (if length (c_text cleaned_article) > 2000 then take 2000 (c_text cleaned_article)
                  else c_text cleaned_article);
               translated_text = (if translate then translate_text nz text_to_translate else None);
               word_count = count_words (c_text cleaned_article)
           in Inr \<lparr>n_id = c_id cleaned_article,
                   n_url = c_url cleaned_article,
                   n_title = c_title cleaned_article,
                   n_text = c_text cleaned_article,
                   n_author = c_author cleaned_article,
                   n_source = c_source cleaned_article,
                   n_published_at = c_published_at cleaned_article,
                   n_scraped_at = c_scraped_at cleaned_article,
                   n_content_hash = c_content_hash cleaned_article,
                   n_language = language,
                   n_translated_title = translated_title,
                   n_translated_text = translated_text,
                   n_word_count = word_count,
                   n_metadata = (c_metadata cleaned_article)(''normalization'' \<mapsto>
                     JObj [(''detected_language'', JStr language),
                           (''translation_enabled'', JBool (enable_translation nz)),
                           (''target_language'',
                              if enable_translation nz then JStr (target_language nz) else JNull)])\<rparr>))"

text \<open>
  The reading of the specification: a text is cut at every whitespace character, and the
  pieces that are not empty are its tokens.
\<close>

fun fields_of :: "string \<Rightarrow> string \<Rightarrow> string list" where
  "fields_of w [] = [w]"
| "fields_of w (c # cs) = (if isspace c then w # fields_of [] cs else fields_of (w @ [c]) cs)"

definition whitespace_separated_tokens :: "string \<Rightarrow> string list" where
  "whitespace_separated_tokens s = [w \<leftarrow> fields_of [] s. w \<noteq> []]"

section \<open>Enricher: pass-through mode (llm_enricher/worker.py)\<close>

text \<open>
  The branch of \<open>enrich_article\<close> taken when no model is configured. \<open>utcnow_iso\<close> is what
  \<open>datetime.utcnow().isoformat()\<close> returns at the call.
\<close>

definition enrich_article_pass_through :: "string \<Rightarrow> NormalizedArticle \<Rightarrow> EnrichedArticle" where
  "enrich_article_pass_through utcnow_iso normalized_article =
     \<lparr>e_id = n_id normalized_article,
      e_url = n_url normalized_article,
      e_title = n_title normalized_article,
      e_text = n_text normalized_article,
      e_author = n_author normalized_article,
      e_source = n_source normalized_article,
      e_published_at = n_published_at normalized_article,
      e_scraped_at = n_scraped_at normalized_article,
      e_content_hash = n_content_hash normalized_article,
      e_language = n_language normalized_article,
      e_translated_title = n_translated_title normalized_article,
      e_translated_text = n_translated_text normalized_article,
      e_word_count = n_word_count normalized_article,
      e_summary =
        (if length (n_text normalized_article) > 200 then take 200 (n_text normalized_article) @ ''...''
         else n_text normalized_article),
      e_topics = [''general'', ''news''],
      e_entities = [],
      e_sentiment = NEUTRAL,
      e_sentiment_score = 0,
      e_embeddings = [],
      e_metadata = (n_metadata normalized_article)(''enrichment'' \<mapsto>
        JObj [(''enriched_at'', JStr utcnow_iso),
              (''model'', JStr ''pass-through''),
              (''embedding_model'', JStr ''none'')])\<rparr>"

section \<open>Query API (api/app/main.py)\<close>

subsection \<open>Validation of a dictionary as an \<open>EnrichedArticle\<close>\<close>

text \<open>
  \<open>EnrichedArticle(**d)\<close>: a field declared without a default must be present, a
  declared default fills an absent field, keys that are no field are ignored. \<open>None\<close> is
  the validation error. The validation library converts where it can: a number given for a
  datetime is a Unix time, in milliseconds when its magnitude is above \<open>2 * 10^10\<close>; an
  integer field takes a boolean, a float without fraction, or a string holding a decimal
  integer (outer blanks and a sign allowed); a float field takes these too.
\<close>

definition digit_value :: "char \<Rightarrow> nat option" where
  "digit_value c =
     (let n = (of_char c :: nat) in if 48 \<le> n \<and> n \<le> 57 then Some (n - 48) else None)"

fun digits_value :: "nat \<Rightarrow> string \<Rightarrow> nat option" where
  "digits_value acc [] = Some acc"
| "digits_value acc (c # cs) =
     (case digit_value c of None \<Rightarrow> None | Some v \<Rightarrow> digits_value (10 * acc + v) cs)"

definition int_of_string :: "string \<Rightarrow> int option" where
  "int_of_string s =
     (case strip s of
        [] \<Rightarrow> None
      | c # cs \<Rightarrow>
          if c = CHR ''-'' then (if cs = [] then None else map_option (\<lambda>n. - int n) (digits_value 0 cs))
          else if c = CHR ''+'' then (if cs = [] then None else map_option int (digits_value 0 cs))
          else map_option int (digits_value 0 (c # cs)))"

definition from_timestamp :: "real \<Rightarrow> datetime" where
  "from_timestamp x = (if \<bar>x\<bar> > 2 * 10 ^ 10 then x / 1000 else x)"

definition json_int :: "json \<Rightarrow> int option" where
  "json_int j =
     (case j of
        JInt i \<Rightarrow> Some i
      | JBool b \<Rightarrow> Some (if b then 1 else 0)
      | JNum x \<Rightarrow> if x = of_int \<lfloor>x\<rfloor> then Some \<lfloor>x\<rfloor> else None
      | JStr s \<Rightarrow> int_of_string s
      | _ \<Rightarrow> None)"

definition json_float :: "json \<Rightarrow> real option" where
  "json_float j =
     (case j of
        JNum x \<Rightarrow> Some x
      | _ \<Rightarrow> map_option of_int (json_int j))"

definition json_time :: "json \<Rightarrow> datetime option" where
  "json_time j =
     (case j of
        JTime t \<Rightarrow> Some t
      | JInt i \<Rightarrow> Some (from_timestamp (of_int i))
      | JNum x \<Rightarrow> Some (from_timestamp x)
      | _ \<Rightarrow> None)"

definition req_str :: "pydict \<Rightarrow> string \<Rightarrow> string option" where
  "req_str d k = (case map_of d k of Some (JStr s) \<Rightarrow> Some s | _ \<Rightarrow> None)"

definition opt_str :: "pydict \<Rightarrow> string \<Rightarrow> string option option" where
  "opt_str d k =
     (case map_of d k of
        None \<Rightarrow> Some None | Some JNull \<Rightarrow> Some None | Some (JStr s) \<Rightarrow> Some (Some s)
      | _ \<Rightarrow> None)"

definition req_time :: "pydict \<Rightarrow> string \<Rightarrow> datetime option" where
  "req_time d k = (case map_of d k of None \<Rightarrow> None | Some j \<Rightarrow> json_time j)"

definition req_int :: "pydict \<Rightarrow> string \<Rightarrow> int option" where
  "req_int d k = (case map_of d k of None \<Rightarrow> None | Some j \<Rightarrow> json_int j)"

definition req_float :: "pydict \<Rightarrow> string \<Rightarrow> real option" where
  "req_float d k = (case map_of d k of None \<Rightarrow> None | Some j \<Rightarrow> json_float j)"

definition json_str :: "json \<Rightarrow> string option" where
  "json_str j = (case j of JStr s \<Rightarrow> Some s | _ \<Rightarrow> None)"

definition str_list :: "pydict \<Rightarrow> string \<Rightarrow> string list option" where
  "str_list d k =
     (case map_of d k of
        None \<Rightarrow> Some [] | Some (JList js) \<Rightarrow> those (map json_str js) | _ \<Rightarrow> None)"

definition float_list :: "pydict \<Rightarrow> string \<Rightarrow> real list option" where
  "float_list d k =
     (case map_of d k of
        None \<Rightarrow> Some [] | Some (JList js) \<Rightarrow> those (map json_float js) | _ \<Rightarrow> None)"

definition dict_field :: "pydict \<Rightarrow> string \<Rightarrow> metadata option" where
  "dict_field d k =
     (case map_of d k of None \<Rightarrow> Some Map.empty | Some (JObj kv) \<Rightarrow> Some (map_of kv) | _ \<Rightarrow> None)"

definition sentiment_value :: "SentimentType \<Rightarrow> string" where
  "sentiment_value s = (case s of POSITIVE \<Rightarrow> ''positive'' | NEGATIVE \<Rightarrow> ''negative'' | NEUTRAL \<Rightarrow> ''neutral'')"

definition sentiment_of :: "string \<Rightarrow> SentimentType option" where
  "sentiment_of s =
     (if s = ''positive'' then Some POSITIVE
      else if s = ''negative'' then Some NEGATIVE
      else if s = ''neutral'' then Some NEUTRAL
      else None)"

definition EnrichedArticle_of :: "pydict \<Rightarrow> EnrichedArticle option" where
  "EnrichedArticle_of d = do {
     v_id \<leftarrow> req_str d ''id'';
     v_url \<leftarrow> req_str d ''url'';
     v_title \<leftarrow> req_str d ''title'';
     v_text \<leftarrow> req_str d ''text'';
     v_author \<leftarrow> opt_str d ''author'';
     v_source \<leftarrow> req_str d ''source'';
     v_published_at \<leftarrow> req_time d ''published_at'';
     v_scraped_at \<leftarrow> req_time d ''scraped_at'';
     v_content_hash \<leftarrow> req_str d ''content_hash'';
     v_language \<leftarrow> req_str d ''language'';
     v_translated_title \<leftarrow> opt_str d ''translated_title'';
     v_translated_text \<leftarrow> opt_str d ''translated_text'';
     v_word_count \<leftarrow> req_int d ''word_count'';
     v_summary \<leftarrow> req_str d ''summary'';
     v_topics \<leftarrow> str_list d ''topics'';
     v_entities \<leftarrow> str_list d ''entities'';
     v_sentiment_str \<leftarrow> req_str d ''sentiment'';
     v_sentiment \<leftarrow> sentiment_of v_sentiment_str;
     v_sentiment_score \<leftarrow> req_float d ''sentiment_score'';
     v_embeddings \<leftarrow> float_list d ''embeddings'';
     v_metadata \<leftarrow> dict_field d ''metadata'';
     Some \<lparr>e_id = v_id, e_url = v_url, e_title = v_title, e_text = v_text, e_author = v_author,
           e_source = v_source, e_published_at = v_published_at, e_scraped_at = v_scraped_at,
           e_content_hash = v_content_hash, e_language = v_language,
           e_translated_title = v_translated_title, e_translated_text = v_translated_text,
           e_word_count = v_word_count, e_summary = v_summary, e_topics = v_topics,
           e_entities = v_entities, e_sentiment = v_sentiment,
           e_sentiment_score = v_sentiment_score, e_embeddings = v_embeddings,
           e_metadata = v_metadata\<rparr>
   }"

subsection \<open>The mock corpus\<close>

definition MOCK_ARTICLES :: "pydict list" where
  "MOCK_ARTICLES =
    [[(''id'', JStr ''1''),
      (''title'', JStr ''AI Revolution in Healthcare''),
      (''content'', JStr ''Artificial intelligence is transforming healthcare with new diagnostic tools and treatment methods. Machine learning algorithms are now capable of detecting diseases earlier than traditional methods.''),
      (''summary'', JStr ''AI is revolutionizing healthcare through advanced diagnostic tools and early disease detection capabilities.''),
      (''url'', JStr ''https://example.com/ai-healthcare''),
      (''published_at'', JTime 1757811600),
      (''source'', JStr ''TechNews''),
      (''author'', JStr ''Dr. Sarah Johnson''),
      (''language'', JStr ''en''),
      (''topics'', JList [JStr ''artificial intelligence'', JStr ''healthcare'', JStr ''technology'']),
      (''entities'', JList [JStr ''AI'', JStr ''machine learning'', JStr ''healthcare'']),
      (''sentiment'', JStr ''positive''),
      (''sentiment_score'', JNum (8 / 10)),
      (''word_count'', JInt 150),
      (''category'', JStr ''Technology''),
      (''translated_text'', JNull)],
     [(''id'', JStr ''2''),
      (''title'', JStr ''Climate Change Impact on Global Economy''),
      (''content'', JStr ''Recent studies show that climate change is having significant impacts on the global economy, affecting agriculture, tourism, and energy sectors worldwide.''),
      (''summary'', JStr ''Climate change is significantly impacting global economy across multiple sectors including agriculture and tourism.''),
      (''url'', JStr ''https://example.com/climate-economy''),
      (''published_at'', JTime 1757815200),
      (''source'', JStr ''Global News''),
      (''author'', JStr ''Maria Rodriguez''),
      (''language'', JStr ''en''),
      (''topics'', JList [JStr ''climate change'', JStr ''economy'', JStr ''environment'']),
      (''entities'', JList [JStr ''climate'', JStr ''economy'', JStr ''agriculture'', JStr ''tourism'']),
      (''sentiment'', JStr ''negative''),
      (''sentiment_score'', JNum (- (6 / 10))),
      (''word_count'', JInt 200),
      (''category'', JStr ''Environment''),
      (''translated_text'', JNull)],
     [(''id'', JStr ''3''),
      (''title'', JStr ''Space Exploration Breakthrough''),
      (''content'', JStr ''Scientists have made a groundbreaking discovery about exoplanets that could change our understanding of life in the universe. The new findings suggest habitable conditions may be more common than previously thought.''),
      (''summary'', JStr ''New exoplanet research suggests habitable conditions may be more widespread in the universe.''),
      (''url'', JStr ''https://example.com/space-discovery''),
      (''published_at'', JTime 1757818800),
      (''source'', JStr ''Science Daily''),
      (''author'', JStr ''Prof. Michael Chen''),
      (''language'', JStr ''en''),
      (''topics'', JList [JStr ''space'', JStr ''science'', JStr ''discovery'']),
      (''entities'', JList [JStr ''exoplanets'', JStr ''space'', JStr ''universe'', JStr ''science'']),
      (''sentiment'', JStr ''positive''),
      (''sentiment_score'', JNum (9 / 10)),
      (''word_count'', JInt 180),
      (''category'', JStr ''Science''),
      (''translated_text'', JNull)]]"

subsection \<open>Requests, responses and the query sent to the store\<close>

record SearchRequest =
  sr_query :: string
  sr_topics :: "string list option"
  sr_sources :: "string list option"
  sr_languages :: "string list option"
  sr_sentiment :: "SentimentType option"
  sr_date_from :: "datetime option"
  sr_date_to :: "datetime option"
  sr_page :: int
  sr_size :: int

record SearchResponse =
  resp_articles :: "EnrichedArticle list"
  resp_total :: int
  resp_page :: int
  resp_size :: int
  resp_took :: int

datatype http_error = HTTPException int

datatype clause =
    Multi_match string "string list" string string
  | Match_all
  | Terms string "string list"
  | Term string string
  | Range string "datetime option" "datetime option"

record bool_query =
  bq_must :: "clause list"
  bq_filter :: "clause list"

text \<open>Truthiness of an optional list: neither \<open>None\<close> nor empty.\<close>

definition truthy :: "'a list option \<Rightarrow> bool" where
  "truthy xs = (case xs of None \<Rightarrow> False | Some ys \<Rightarrow> ys \<noteq> [])"

definition build_elasticsearch_query :: "SearchRequest \<Rightarrow> bool_query" where
  "build_elasticsearch_query search_request =
     (let must0 =
            (if sr_query search_request \<noteq> []
             then [Multi_match (sr_query search_request)
                     [''title^3'', ''summary^2'', ''text'', ''topics^2'', ''entities'']
                     ''best_fields'' ''AUTO'']
             else []);
          f1 = (if truthy (sr_topics search_request)
                then [Terms ''topics'' (the (sr_topics search_request))] else []);
          f2 = (if truthy (sr_sources search_request)
                then f1 @ [Terms ''source'' (the (sr_sources search_request))] else f1);
          f3 = (if truthy (sr_languages search_request)
                then f2 @ [Terms ''language'' (the (sr_languages search_request))] else f2);
          f4 = (case sr_sentiment search_request of
                  None \<Rightarrow> f3 | Some s \<Rightarrow> f3 @ [Term ''sentiment'' (sentiment_value s)]);
          f5 = (if sr_date_from search_request \<noteq> None \<or> sr_date_to search_request \<noteq> None
                then f4 @ [Range ''published_at'' (sr_date_from search_request)
                             (sr_date_to search_request)]
                else f4);
          must1 = (if must0 = [] then must0 @ [Match_all] else must0)
      in \<lparr>bq_must = must1, bq_filter = f5\<rparr>)"

subsection \<open>The search store\<close>

text \<open>
  The store is an external service: a function from the request body to the response,
  \<open>None\<close> where the client raises.
\<close>

datatype sort_order = Asc | Desc

record es_body =
  b_query :: bool_query
  b_sort :: "(string \<times> sort_order) list"
  b_from :: int
  b_size :: int

record es_response =
  hits :: "pydict list"
  hits_total :: int
  es_took :: int

type_synonym engine = "es_body \<Rightarrow> es_response option"

text \<open>
  What \<open>search_articles\<close> relies on: asked to sort by \<open>published_at\<close> descending, the
  store returns its hits in that order.
\<close>

definition published_times :: "pydict list \<Rightarrow> datetime list" where
  "published_times ds = List.map_filter (\<lambda>d. req_time d ''published_at'') ds"

definition descending :: "datetime list \<Rightarrow> bool" where
  "descending ts = sorted_wrt (\<lambda>a b. b \<le> a) ts"

definition honours_sort :: "engine \<Rightarrow> bool" where
  "honours_sort es =
     (\<forall>body response. es body = Some response \<and> b_sort body = [(''published_at'', Desc)]
        \<longrightarrow> descending (published_times (hits response)))"

text \<open>
  A reference store over a list of documents, for running the store-backed path: the
  documents matching every clause, ordered by the first sort key (documents without the
  key last), cut to the window \<open>from\<close>, \<open>size\<close>. The full-text match is the parameter
  \<open>fulltext\<close>.
\<close>

definition field_strs :: "pydict \<Rightarrow> string \<Rightarrow> string list" where
  "field_strs d k =
     (case map_of d k of
        Some (JStr s) \<Rightarrow> [s]
      | Some (JList js) \<Rightarrow> List.map_filter json_str js
      | _ \<Rightarrow> [])"

definition clause_matches :: "(string \<Rightarrow> pydict \<Rightarrow> bool) \<Rightarrow> clause \<Rightarrow> pydict \<Rightarrow> bool" where
  "clause_matches fulltext c d =
     (case c of
        Match_all \<Rightarrow> True
      | Multi_match q fs ty fuzz \<Rightarrow> fulltext q d
      | Terms f vs \<Rightarrow> list_ex (\<lambda>s. s \<in> set vs) (field_strs d f)
      | Term f v \<Rightarrow> list_ex (\<lambda>s. s = v) (field_strs d f)
      | Range f lo hi \<Rightarrow>
          (case req_time d f of
             None \<Rightarrow> False
           | Some t \<Rightarrow> (case lo of None \<Rightarrow> True | Some a \<Rightarrow> a \<le> t)
                       \<and> (case hi of None \<Rightarrow> True | Some b \<Rightarrow> t \<le> b)))"

definition doc_matches :: "(string \<Rightarrow> pydict \<Rightarrow> bool) \<Rightarrow> bool_query \<Rightarrow> pydict \<Rightarrow> bool" where
  "doc_matches fulltext q d =
     (list_all (\<lambda>c. clause_matches fulltext c d) (bq_must q)
      \<and> list_all (\<lambda>c. clause_matches fulltext c d) (bq_filter q))"

definition time_key :: "string \<Rightarrow> pydict \<Rightarrow> datetime" where
  "time_key k d = (case req_time d k of None \<Rightarrow> 0 | Some t \<Rightarrow> t)"

definition es_sort :: "(string \<times> sort_order) list \<Rightarrow> pydict list \<Rightarrow> pydict list" where
  "es_sort keys ds =
     (case keys of
        [] \<Rightarrow> ds
      | (k, order) # others \<Rightarrow>
          (let present = [d \<leftarrow> ds. req_time d k \<noteq> None];
               absent = [d \<leftarrow> ds. req_time d k = None];
               ascending = sort_key (time_key k) present
           in (if order = Desc then rev ascending else ascending) @ absent))"

definition es_search :: "(string \<Rightarrow> pydict \<Rightarrow> bool) \<Rightarrow> int \<Rightarrow> pydict list \<Rightarrow> engine" where
  "es_search fulltext took_ms store body =
     (let matching = [d \<leftarrow> store. doc_matches fulltext (b_query body) d];
          ordered = es_sort (b_sort body) matching
      in Some \<lparr>hits = slice (nat (b_from body)) (nat (b_from body + b_size body)) ordered,
               hits_total = int (length matching),
               es_took = took_ms\<rparr>)"

subsection \<open>The search operation\<close>

text \<open>A list comprehension whose condition may raise: \<open>None\<close> as soon as one test does.\<close>

fun filter_opt :: "('a \<Rightarrow> bool option) \<Rightarrow> 'a list \<Rightarrow> 'a list option" where
  "filter_opt p [] = Some []"
| "filter_opt p (x # xs) =
     (case p x of
        None \<Rightarrow> None
      | Some b \<Rightarrow>
          (case filter_opt p xs of None \<Rightarrow> None | Some ys \<Rightarrow> Some (if b then x # ys else ys)))"

text \<open>
  The four conditions of the mock filtering; a missing key raises. \<open>mock_filter\<close> is
  the list \<open>filtered_articles\<close> as the mock branch has it before it builds the response:
  the branch filters and never reorders.
\<close>

definition mock_matches_query :: "string \<Rightarrow> pydict \<Rightarrow> bool option" where
  "mock_matches_query query article = do {
     title \<leftarrow> req_str article ''title'';
     if str_in (lower query) (lower title) then Some True
     else do {
       content \<leftarrow> req_str article ''content'';
       if str_in (lower query) (lower content) then Some True
       else do {
         summary \<leftarrow> req_str article ''summary'';
         Some (str_in (lower query) (lower summary))
       }
     }
   }"

definition mock_matches_topics :: "string list \<Rightarrow> pydict \<Rightarrow> bool option" where
  "mock_matches_topics topics article =
     (case map_of article ''topics'' of
        Some (JList js) \<Rightarrow>
          (case those (map json_str js) of
             None \<Rightarrow> None
           | Some ts \<Rightarrow> Some (list_ex (\<lambda>topic. lower topic \<in> set (map lower ts)) topics))
      | _ \<Rightarrow> None)"

definition mock_matches_sources :: "string list \<Rightarrow> pydict \<Rightarrow> bool option" where
  "mock_matches_sources sources article = do {
     source \<leftarrow> req_str article ''source'';
     Some (source \<in> set sources)
   }"

definition mock_matches_sentiment :: "SentimentType \<Rightarrow> pydict \<Rightarrow> bool option" where
  "mock_matches_sentiment sentiment article = do {
     s \<leftarrow> req_str article ''sentiment'';
     Some (s = sentiment_value sentiment)
   }"

definition mock_filter :: "SearchRequest \<Rightarrow> pydict list option" where
  "mock_filter sr = do {
     f1 \<leftarrow> (if sr_query sr \<noteq> [] then filter_opt (mock_matches_query (sr_query sr)) MOCK_ARTICLES
            else Some MOCK_ARTICLES);
     f2 \<leftarrow> (if truthy (sr_topics sr) then filter_opt (mock_matches_topics (the (sr_topics sr))) f1
            else Some f1);
     f3 \<leftarrow> (if truthy (sr_sources sr) then filter_opt (mock_matches_sources (the (sr_sources sr))) f2
            else Some f2);
     (case sr_sentiment sr of
        None \<Rightarrow> Some f3 | Some s \<Rightarrow> filter_opt (mock_matches_sentiment s) f3)
   }"

definition mock_search :: "SearchRequest \<Rightarrow> SearchResponse option" where
  "mock_search sr = do {
     filtered_articles \<leftarrow> mock_filter sr;
     articles \<leftarrow> those (map EnrichedArticle_of filtered_articles);
     let from_offset = (sr_page sr - 1) * sr_size sr;
         paginated_articles = slice (nat from_offset) (nat (from_offset + sr_size sr)) articles
     in Some \<lparr>resp_articles = paginated_articles,
              resp_total = int (length articles),
              resp_page = sr_page sr,
              resp_size = sr_size sr,
              resp_took = 1\<rparr>
   }"

definition store_search :: "engine \<Rightarrow> SearchRequest \<Rightarrow> SearchResponse option" where
  "store_search es sr = do {
     let es_query = build_elasticsearch_query sr;
     let from_offset = (sr_page sr - 1) * sr_size sr;
     response \<leftarrow> es \<lparr>b_query = es_query,
                     b_sort = [(''published_at'', Desc)],
                     b_from = from_offset,
                     b_size = sr_size sr\<rparr>;
     articles \<leftarrow> those (map EnrichedArticle_of (hits response));
     Some \<lparr>resp_articles = articles,
           resp_total = hits_total response,
           resp_page = sr_page sr,
           resp_size = sr_size sr,
           resp_took = es_took response\<rparr>
   }"

text \<open>
  \<open>search_articles\<close>. The first argument is the store client, \<open>None\<close> when the store was
  unreachable at start-up (mock mode). Parameters outside their declared bounds are refused
  with status 422; every exception inside the handler becomes status 500.
\<close>

definition search_articles :: "engine option \<Rightarrow> SearchRequest \<Rightarrow> http_error + SearchResponse" where
  "search_articles es sr =
     (if sr_page sr < 1 \<or> sr_size sr < 1 \<or> sr_size sr > 100 then Inl (HTTPException 422)
      else case (case es of None \<Rightarrow> mock_search sr | Some client \<Rightarrow> store_search client sr) of
             None \<Rightarrow> Inl (HTTPException 500)
           | Some response \<Rightarrow> Inr response)"

section \<open>Sample data\<close>

text \<open>
  A worker that has seen nothing, an undisturbed turn of the loop at a given instant, a turn
  with the store unreachable, and a few
  raw articles: two with the same title and text up to case and outer blanks, one too short,
  and a family of articles with pairwise different texts. The content of each is free of
  markup, so the text that the HTML parser extracts is the content itself: \<open>Some\<close>
  stands for the parser on these inputs.
\<close>

definition fresh :: deduper where
  "fresh = \<lparr>seen_hashes = {}, redis = Map.empty, dedup_window_hours = 24\<rparr>"

definition at_time :: "int \<Rightarrow> env" where
  "at_time t = \<lparr>now = t, fault = Redis_ok, send_ok = True\<rparr>"

definition redis_down :: "int \<Rightarrow> env" where
  "redis_down t = \<lparr>now = t, fault = Exists_raises, send_ok = True\<rparr>"

definition exoplanets :: string where
  "exoplanets = ''Scientists have made a groundbreaking discovery about exoplanets that could change our understanding of life in the universe.''"

definition raw1 :: RawArticle where
  "raw1 = \<lparr>r_id = ''a1'', r_url = ''https://example.com/space-discovery'', r_title = ''Quantum Leap'',
           r_content = exoplanets, r_author = None, r_source = ''example.com'',
           r_published_at = 1736935200, r_scraped_at = 1736935260, r_metadata = Map.empty\<rparr>"

definition raw2 :: RawArticle where
  "raw2 = raw1\<lparr>r_id := ''a2'', r_title := '' QUANTUM leap ''\<rparr>"

definition numbered_article :: "nat \<Rightarrow> RawArticle" where
  "numbered_article n =
     raw1\<lparr>r_id := replicate (Suc n) (CHR ''i''), r_content := replicate (100 + n) (CHR ''a'')\<rparr>"

definition raw_short :: RawArticle where
  "raw_short = raw1\<lparr>r_id := ''a3'', r_content := ''Too short.''\<rparr>"

definition plain_normalizer :: normalizer where
  "plain_normalizer = \<lparr>enable_translation = False, target_language = ''en'', translator = None,
                        langdetect = (\<lambda>text. Some ''en'')\<rparr>"

text \<open>
  For the query API: the request with an empty query and no filter, a store of three valid
  documents, and a normalized article.
\<close>

definition empty_query_request :: SearchRequest where
  "empty_query_request =
     \<lparr>sr_query = [], sr_topics = None, sr_sources = None, sr_languages = None,
      sr_sentiment = None, sr_date_from = None, sr_date_to = None, sr_page = 1, sr_size = 20\<rparr>"

definition stored_doc :: "string \<Rightarrow> string \<Rightarrow> datetime \<Rightarrow> pydict" where
  "stored_doc i src t =
     [(''id'', JStr i), (''url'', JStr ''https://example.com/a''), (''title'', JStr ''Quantum Leap''),
      (''text'', JStr exoplanets), (''source'', JStr src), (''published_at'', JTime t),
      (''scraped_at'', JTime (t + 60)), (''content_hash'', JStr ''5f2b''), (''language'', JStr ''en''),
      (''word_count'', JInt 19), (''summary'', JStr ''Scientists made a discovery.''),
      (''topics'', JList [JStr ''general'', JStr ''news'']), (''entities'', JList []),
      (''sentiment'', JStr ''neutral''), (''sentiment_score'', JInt 0), (''embeddings'', JList [])]"

definition sample_store :: "pydict list" where
  "sample_store = [stored_doc ''1'' ''A'' 1736935200, stored_doc ''2'' ''B'' 1737021600,
                   stored_doc ''3'' ''A'' 1736978400]"

definition normalized1 :: NormalizedArticle where
  "normalized1 =
     \<lparr>n_id = ''a1'', n_url = ''https://example.com/space-discovery'', n_title = ''Quantum Leap'',
      n_text = exoplanets, n_author = None, n_source = ''example.com'',
      n_published_at = 1736935200, n_scraped_at = 1736935260, n_content_hash = ''5f2b'',
      n_language = ''en'', n_translated_title = None, n_translated_text = None, n_word_count = 19,
      n_metadata = [''normalization'' \<mapsto> JObj [(''detected_language'', JStr ''en'')]]\<rparr>"

section \<open>Properties of the string primitives\<close>

lemma split_on_not_Nil: "split_on c s \<noteq> []"
  by (induction s) (auto split: list.splits)

lemma join_split_on: "join [c] (split_on c s) = s"
proof (induction s)
  case Nil
  show ?case by simp
next
  case (Cons x xs)
  obtain p ps where sp: "split_on c xs = p # ps"
    using split_on_not_Nil [of c xs] by (cases "split_on c xs") auto
  show ?case using Cons sp by (cases ps) auto
qed

lemma length_split_on: "(Suc 0 < length (split_on c s)) = (c \<in> set s)"
  by (induction s) (auto split: list.splits simp: split_on_not_Nil)

lemma last_split_on: "c \<notin> set (last (split_on c s))"
  by (induction s) (auto split: list.splits simp: split_on_not_Nil)

lemma join_snoc: "ps \<noteq> [] \<Longrightarrow> join sep (ps @ [l]) = join sep ps @ sep @ l"
  by (induction sep ps rule: join.induct) auto

lemma upto_last_append: "c \<notin> set l \<Longrightarrow> upto_last c (a @ [c] @ l) = a @ [c]"
  by (simp add: upto_last_def dropWhile_append)

lemma join_butlast_split_on:
  assumes "c \<in> set s"
  shows "join [c] (butlast (split_on c s)) @ [c] = upto_last c s"
proof -
  let ?ps = "split_on c s"
  have len: "Suc 0 < length ?ps" using assms by (simp add: length_split_on)
  then have bl: "butlast ?ps \<noteq> []" by (cases ?ps rule: rev_cases) auto
  have ps: "?ps = butlast ?ps @ [last ?ps]" by (simp add: split_on_not_Nil)
  have "s = join [c] (butlast ?ps @ [last ?ps])" using ps join_split_on [of c s] by simp
  also have "\<dots> = join [c] (butlast ?ps) @ [c] @ last ?ps" using bl by (rule join_snoc)
  finally have s: "s = join [c] (butlast ?ps) @ [c] @ last ?ps" .
  have "upto_last c (join [c] (butlast ?ps) @ [c] @ last ?ps) = join [c] (butlast ?ps) @ [c]"
    by (rule upto_last_append) (rule last_split_on)
  with s show ?thesis by simp
qed

lemma length_upto_last: "length (upto_last c s) \<le> length s"
  by (simp add: upto_last_def) (metis length_dropWhile_le length_rev)

lemma truncate_text_eq:
  "truncate_text text cap =
     (if int (length text) \<le> cap then text
      else if CHR ''.'' \<in> set (slice_to cap text) then upto_last (CHR ''.'') (slice_to cap text)
      else slice_to cap text @ ''...'')"
proof (cases "CHR ''.'' \<in> set (slice_to cap text)")
  case True
  then show ?thesis
    using join_butlast_split_on [of "CHR ''.''" "slice_to cap text"]
    by (simp add: truncate_text_def Let_def length_split_on)
next
  case False
  then show ?thesis by (simp add: truncate_text_def Let_def length_split_on)
qed

lemma length_slice_to: "0 \<le> cap \<Longrightarrow> \<not> int (length text) \<le> cap \<Longrightarrow> int (length (slice_to cap text)) = cap"
  by (simp add: slice_to_def)

lemma words_of_fields_of: "words_of w s = [x \<leftarrow> fields_of w s. x \<noteq> []]"
  by (induction s arbitrary: w) auto

lemma split_ws_tokens: "split_ws s = whitespace_separated_tokens s"
  by (simp add: split_ws_def whitespace_separated_tokens_def words_of_fields_of)

lemma dropWhile_all: "(\<forall>c \<in> set (dropWhile P s). P c) = (\<forall>c \<in> set s. P c)"
proof
  assume all: "\<forall>c \<in> set (dropWhile P s). P c"
  have "dropWhile P s = []"
  proof (rule ccontr)
    assume ne: "dropWhile P s \<noteq> []"
    then have "\<not> P (hd (dropWhile P s))" by (rule hd_dropWhile)
    moreover have "hd (dropWhile P s) \<in> set (dropWhile P s)" using ne by (rule hd_in_set)
    ultimately show False using all by blast
  qed
  then show "\<forall>c \<in> set s. P c" by (simp only: dropWhile_eq_Nil_conv)
next
  assume "\<forall>c \<in> set s. P c"
  then show "\<forall>c \<in> set (dropWhile P s). P c" using set_dropWhileD by fastforce
qed

lemma strip_eq_Nil: "(strip s = []) = (\<forall>c \<in> set s. isspace c)"
proof -
  have "(strip s = []) = (\<forall>c \<in> set (rev (dropWhile isspace s)). isspace c)"
    by (simp only: strip_def rev_is_Nil_conv dropWhile_eq_Nil_conv)
  also have "\<dots> = (\<forall>c \<in> set (dropWhile isspace s). isspace c)" by simp
  also have "\<dots> = (\<forall>c \<in> set s. isspace c)" by (rule dropWhile_all)
  finally show ?thesis .
qed

lemma words_of_nonempty: "x \<in> set (words_of w s) \<Longrightarrow> x \<noteq> []"
  by (induction s arbitrary: w) (auto split: if_splits)

lemma words_of_nospace:
  "\<forall>c \<in> set w. \<not> isspace c \<Longrightarrow> x \<in> set (words_of w s) \<Longrightarrow> \<forall>c \<in> set x. \<not> isspace c"
proof (induction s arbitrary: w)
  case Nil
  then show ?case by (auto split: if_splits)
next
  case (Cons a s)
  show ?case
  proof (cases "isspace a")
    case True
    then have "x = w \<or> x \<in> set (words_of [] s)" using Cons.prems(2) by (auto split: if_splits)
    then show ?thesis using Cons.prems(1) Cons.IH [of "[]"] by auto
  next
    case False
    then have "x \<in> set (words_of (w @ [a]) s)" using Cons.prems(2) by simp
    moreover have "\<forall>c \<in> set (w @ [a]). \<not> isspace c" using Cons.prems(1) False by simp
    ultimately show ?thesis by (rule Cons.IH [rotated])
  qed
qed



lemma split_ws_strip: "x \<in> set (split_ws s) \<Longrightarrow> strip x \<noteq> []"
  using words_of_nospace [of "[]" x s] words_of_nonempty [of x "[]" s]
  by (cases x) (auto simp: split_ws_def strip_eq_Nil)

lemma count_words_length: "count_words s = int (length (split_ws s))"
proof -
  have "[word \<leftarrow> split_ws s. strip word \<noteq> []] = split_ws s"
    by (rule filter_True) (simp add: split_ws_strip)
  then show ?thesis by (simp add: count_words_def)
qed

lemma words_of_not_Nil: "w \<noteq> [] \<or> (\<exists>c \<in> set s. \<not> isspace c) \<Longrightarrow> words_of w s \<noteq> []"
  by (induction s arbitrary: w) auto

lemma last_strip: "strip s \<noteq> [] \<Longrightarrow> \<not> isspace (last (strip s))"
proof -
  assume ne: "strip s \<noteq> []"
  let ?t = "dropWhile isspace (rev (dropWhile isspace s))"
  have t: "?t \<noteq> []" using ne by (simp add: strip_def)
  then have "\<not> isspace (hd ?t)" by (rule hd_dropWhile)
  moreover have "last (strip s) = hd ?t" using t by (simp add: strip_def last_rev)
  ultimately show ?thesis by simp
qed

lemma count_words_pos: "strip s \<noteq> [] \<Longrightarrow> 1 \<le> count_words (strip s)"
proof -
  assume ne: "strip s \<noteq> []"
  then have "\<exists>c \<in> set (strip s). \<not> isspace c"
    using last_strip [of s] last_in_set [of "strip s"] by blast
  then have "words_of [] (strip s) \<noteq> []" by (simp add: words_of_not_Nil)
  then have "split_ws (strip s) \<noteq> []" by (simp add: split_ws_def)
  then show ?thesis by (cases "split_ws (strip s)") (simp_all add: count_words_length)
qed

section \<open>Truncation in the enricher\<close>

text \<open>
  Claim C7, as the code has it. For every text and cap, \<open>truncate_text\<close> returns the text
  unchanged when its length is at most the cap; otherwise, when the slice \<open>text[:cap]\<close>
  contains a full stop, the prefix of that slice up to and including its last full stop;
  otherwise the slice followed by three dots. For a cap that is not negative the result is
  at most \<open>cap\<close> characters long in the first two cases, and exactly \<open>cap + 3\<close>
  characters long in the third.
\<close>

theorem truncate_text_spec:
  "truncate_text text cap =
     (if int (length text) \<le> cap then text
      else if CHR ''.'' \<in> set (slice_to cap text) then upto_last (CHR ''.'') (slice_to cap text)
      else slice_to cap text @ ''...'')
   \<and> (0 \<le> cap \<longrightarrow>
        (if int (length text) \<le> cap \<or> CHR ''.'' \<in> set (slice_to cap text)
         then int (length (truncate_text text cap)) \<le> cap
         else int (length (truncate_text text cap)) = cap + 3))"
proof (intro conjI impI)
  show "truncate_text text cap =
     (if int (length text) \<le> cap then text
      else if CHR ''.'' \<in> set (slice_to cap text) then upto_last (CHR ''.'') (slice_to cap text)
      else slice_to cap text @ ''...'')" by (rule truncate_text_eq)
next
  assume cap: "0 \<le> cap"
  show "if int (length text) \<le> cap \<or> CHR ''.'' \<in> set (slice_to cap text)
         then int (length (truncate_text text cap)) \<le> cap
         else int (length (truncate_text text cap)) = cap + 3"
  proof (cases "int (length text) \<le> cap")
    case True
    then show ?thesis by (simp add: truncate_text_eq)
  next
    case False
    have l: "int (length (slice_to cap text)) = cap" using cap False by (rule length_slice_to)
    have "int (length (upto_last (CHR ''.'') (slice_to cap text))) \<le> cap"
      using length_upto_last [of "CHR ''.''" "slice_to cap text"] l by linarith
    then show ?thesis using False l by (simp add: truncate_text_eq)
  qed
qed

theorem truncate_text_spec_witness:
  "(0::int) \<le> 6 \<and> truncate_text ''ab.c.defgh'' 6 = ''ab.c.'' \<and> truncate_text ''abcdefgh'' 6 = ''abcdef...''"
  using truncate_text_spec [of "''ab.c.defgh''" 6] truncate_text_spec [of "''abcdefgh''" 6]
  by (simp add: slice_to_def upto_last_def)

text \<open>
  The bound of claim C7 on the length fails where the text is cut without a full stop:
  six characters are returned for a cap of three.
\<close>

theorem truncate_text_exceeds_cap: "\<not> int (length (truncate_text ''abcdef'' 3)) \<le> 3"
  by (simp add: truncate_text_def slice_to_def)

section \<open>Word count in the normalizer\<close>

text \<open>
  Claim C6. Every normalized article carries the cleaned text unchanged, and its
  \<open>word_count\<close> is the number of non-empty tokens that cutting this text at every
  whitespace character leaves; the translated text plays no part.
\<close>

theorem word_count_is_token_count:
  "\<exists>na. normalize_article nz (Some ca) = Inr na
        \<and> n_text na = c_text ca
        \<and> n_word_count na = int (length (whitespace_separated_tokens (c_text ca)))"
  by (simp add: normalize_article_def Let_def count_words_length split_ws_tokens)

section \<open>Properties of the parser and deduper\<close>

lemmas eval_defs = fresh_def at_time_def exoplanets_def raw1_def raw2_def raw_short_def
  process_message_def process_article_def clean_article_text_def clean_html_def splitlines_def
  is_linebreak_def split_ws_def strip_def isspace_def
  is_duplicate_def local_fallback_def create_article_hash_def redis_exists_def Let_def lower_def lower_char_def is_upper_def
  dedup_key_prefix_def

lemma process_messages_append:
  "process_messages ch sha (xs @ ys) d =
     (fst (process_messages ch sha xs d) @ fst (process_messages ch sha ys (snd (process_messages ch sha xs d))),
      snd (process_messages ch sha ys (snd (process_messages ch sha xs d))))"
  by (induction xs arbitrary: d) (auto simp: Let_def split: prod.splits option.splits)

lemma clean_article_text_length:
  "clean_article_text ch c \<noteq> [] \<Longrightarrow> 100 \<le> length (clean_article_text ch c)"
  by (auto simp: clean_article_text_def Let_def split: option.splits if_splits)

lemma clean_article_text_strip:
  "\<exists>s. clean_article_text ch c = strip s"
proof -
  have "strip [] = []" by (simp add: strip_def)
  then show ?thesis
    by (auto simp: clean_article_text_def Let_def split: option.splits) metis+
qed

lemma is_duplicate_seen: "h \<in> seen_hashes d \<Longrightarrow> is_duplicate e h d = (True, d)"
  by (simp add: is_duplicate_def)

lemma is_duplicate_new:
  "h \<notin> seen_hashes d \<Longrightarrow> \<not> redis_exists (now e) (redis d) (dedup_key_prefix @ h) \<Longrightarrow>
   fst (is_duplicate e h d) = False \<and> seen_hashes (snd (is_duplicate e h d)) = insert h (seen_hashes d)"
  by (simp add: is_duplicate_def local_fallback_def Let_def)

lemma is_duplicate_mono: "seen_hashes d \<subseteq> seen_hashes (snd (is_duplicate e h d))"
  by (auto simp: is_duplicate_def local_fallback_def Let_def)

lemma process_message_state:
  "snd (process_message ch sha e m d) =
     (case m of
        None \<Rightarrow> d
      | Some a \<Rightarrow> if clean_article_text ch (r_content a) = [] then d
                  else snd (is_duplicate e (hash_of ch sha a) d))"
  by (simp add: process_message_def process_article_def hash_of_def Let_def split_beta
           split: option.splits)

lemma process_message_mono: "seen_hashes d \<subseteq> seen_hashes (snd (process_message ch sha e m d))"
  using is_duplicate_mono [of d e]
  by (simp add: process_message_state split: option.splits)

lemma process_messages_mono: "seen_hashes d \<subseteq> seen_hashes (snd (process_messages ch sha ms d))"
proof (induction ms arbitrary: d)
  case Nil
  show ?case by simp
next
  case (Cons m ms)
  obtain e a where m: "m = (e, a)" by (cases m)
  have "seen_hashes d \<subseteq> seen_hashes (snd (process_message ch sha e a d))" by (rule process_message_mono)
  also have "\<dots> \<subseteq> seen_hashes (snd (process_messages ch sha ms (snd (process_message ch sha e a d))))"
    by (rule Cons.IH)
  finally show ?case using m by (simp add: Let_def split_beta)
qed

lemma process_message_accepted:
  assumes "clean_article_text ch (r_content a) \<noteq> []"
  shows "process_message ch sha e (Some a) d =
    (let h = hash_of ch sha a; r = is_duplicate e h d
     in (if fst r \<or> \<not> send_ok e then None
         else Some \<lparr>c_id = r_id a, c_url = r_url a, c_title = strip (r_title a),
                    c_text = clean_article_text ch (r_content a), c_author = r_author a,
                    c_source = r_source a, c_published_at = r_published_at a,
                    c_scraped_at = r_scraped_at a, c_content_hash = h,
                    c_is_duplicate = False, c_metadata = r_metadata a\<rparr>, snd r))"
  using assms
  by (auto simp: process_message_def process_article_def hash_of_def Let_def split: prod.splits)

lemma same_key_same_hash:
  "content_key ch a = content_key ch b \<Longrightarrow> hash_of ch sha a = hash_of ch sha b"
  by (simp add: content_key_def hash_of_def create_article_hash_def)

lemma is_duplicate_store:
  "dom (redis (snd (is_duplicate e h d))) \<subseteq> insert (dedup_key_prefix @ h) (dom (redis d))"
  by (auto simp: is_duplicate_def local_fallback_def Let_def split: if_splits)

lemma is_duplicate_finite: "finite (seen_hashes d) \<Longrightarrow> finite (seen_hashes (snd (is_duplicate e h d)))"
  by (auto simp: is_duplicate_def local_fallback_def Let_def)

lemma store_keys_seen:
  assumes inv: "dom (redis d) \<subseteq> (\<lambda>h. dedup_key_prefix @ h) ` seen_hashes d"
      and new: "h \<notin> seen_hashes d"
  shows "\<not> redis_exists t (redis d) (dedup_key_prefix @ h)"
proof -
  have "dedup_key_prefix @ h \<notin> dom (redis d)" using inv new by auto
  then show ?thesis by (auto simp: redis_exists_def split: option.splits)
qed

lemma process_messages_Cons_state:
  "snd (process_messages ch sha ((e, m) # ms) d)
     = snd (process_messages ch sha ms (snd (process_message ch sha e m d)))"
  by (simp add: Let_def split_beta)

lemma seen_hashes_grow:
  assumes "finite (seen_hashes d)"
      and "dom (redis d) \<subseteq> (\<lambda>h. dedup_key_prefix @ h) ` seen_hashes d"
      and "\<forall>(e, a) \<in> set eas. clean_article_text ch (r_content a) \<noteq> []"
      and "distinct (map (\<lambda>(e, a). hash_of ch sha a) eas)"
      and "\<forall>(e, a) \<in> set eas. hash_of ch sha a \<notin> seen_hashes d"
  shows "card (seen_hashes (snd (process_messages ch sha (map (\<lambda>(e, a). (e, Some a)) eas) d)))
           = card (seen_hashes d) + length eas"
  using assms
proof (induction eas arbitrary: d)
  case Nil
  show ?case by simp
next
  case (Cons x eas)
  obtain e a where x: "x = (e, a)" by (cases x)
  let ?h = "hash_of ch sha a"
  let ?d = "snd (is_duplicate e ?h d)"
  have acc: "clean_article_text ch (r_content a) \<noteq> []" using Cons.prems(3) x by simp
  have new: "?h \<notin> seen_hashes d" using Cons.prems(5) x by simp
  have step: "snd (process_message ch sha e (Some a) d) = ?d"
    using acc by (simp add: process_message_state)
  have seen: "seen_hashes ?d = insert ?h (seen_hashes d)"
    using is_duplicate_new [OF new store_keys_seen [OF Cons.prems(2) new]] by simp
  have fin: "finite (seen_hashes ?d)" using Cons.prems(1) by (rule is_duplicate_finite)
  have inv: "dom (redis ?d) \<subseteq> (\<lambda>h. dedup_key_prefix @ h) ` seen_hashes ?d"
  proof
    fix k
    assume "k \<in> dom (redis ?d)"
    then have "k = dedup_key_prefix @ ?h \<or> k \<in> dom (redis d)"
      using is_duplicate_store [of e ?h d] by blast
    then show "k \<in> (\<lambda>h. dedup_key_prefix @ h) ` seen_hashes ?d"
      using Cons.prems(2) seen by blast
  qed
  have acc': "\<forall>(e, a) \<in> set eas. clean_article_text ch (r_content a) \<noteq> []"
    using Cons.prems(3) by simp
  have dist': "distinct (map (\<lambda>(e, a). hash_of ch sha a) eas)" using Cons.prems(4) by simp
  have other: "?h \<notin> (\<lambda>(e, a). hash_of ch sha a) ` set eas" using Cons.prems(4) x by simp
  have new': "\<forall>(e, a) \<in> set eas. hash_of ch sha a \<notin> seen_hashes ?d"
  proof (clarify)
    fix e' a'
    assume mem: "(e', a') \<in> set eas" and bad: "hash_of ch sha a' \<in> seen_hashes ?d"
    have "hash_of ch sha a' \<notin> seen_hashes d" using Cons.prems(5) mem by auto
    then have "hash_of ch sha a' = ?h" using bad seen by simp
    then show False using other mem by force
  qed
  have ih: "card (seen_hashes (snd (process_messages ch sha (map (\<lambda>(e, a). (e, Some a)) eas) ?d)))
          = card (seen_hashes ?d) + length eas"
    using fin inv acc' dist' new' by (rule Cons.IH)
  have grow: "card (seen_hashes ?d) = Suc (card (seen_hashes d))"
    using seen new Cons.prems(1) by simp
  have "snd (process_messages ch sha (map (\<lambda>(e, a). (e, Some a)) (x # eas)) d)
          = snd (process_messages ch sha (map (\<lambda>(e, a). (e, Some a)) eas) ?d)"
    using x step by (simp only: list.map prod.case process_messages_Cons_state)
  then show ?case using ih grow by simp
qed


lemma words_of_nospace_string:
  "\<forall>c \<in> set s. \<not> isspace c \<Longrightarrow> w @ s \<noteq> [] \<Longrightarrow> words_of w s = [w @ s]"
  by (induction s arbitrary: w) auto

lemma strip_nospace: "\<forall>c \<in> set s. \<not> isspace c \<Longrightarrow> strip s = s"
proof -
  assume ns: "\<forall>c \<in> set s. \<not> isspace c"
  have dw: "dropWhile isspace xs = xs" if "\<forall>c \<in> set xs. \<not> isspace c" for xs
    using that by (cases xs) auto
  show ?thesis using ns by (simp add: strip_def dw)
qed

lemma lines_of_one_line:
  "\<forall>c \<in> set s. \<not> is_linebreak c \<Longrightarrow> l @ s \<noteq> [] \<Longrightarrow> lines_of l s = [l @ s]"
  by (induction l s rule: lines_of.induct) (auto simp: is_linebreak_def)

lemma split_double_space_one_piece:
  "CHR '' '' \<notin> set s \<Longrightarrow> split_double_space p s = [p @ s]"
  by (induction p s rule: split_double_space.induct) auto

lemma clean_html_nospace:
  assumes "s \<noteq> []" and "\<forall>c \<in> set s. \<not> isspace c"
  shows "clean_html Some s = Some s"
proof -
  have "\<forall>c \<in> set s. \<not> is_linebreak c" using assms(2) by (auto simp: is_linebreak_def isspace_def)
  then have l: "splitlines s = [s]" using assms(1) lines_of_one_line [of s "[]"] by (simp add: splitlines_def)
  have "CHR '' '' \<notin> set s" using assms(2) by (auto simp: isspace_def)
  then have p: "split_double_space [] s = [s]" using split_double_space_one_piece [of s "[]"] by simp
  show ?thesis using assms(1) by (simp add: clean_html_def l p strip_nospace [OF assms(2)])
qed

lemma clean_article_text_numbered:
  "clean_article_text Some (replicate (100 + n) (CHR ''a'')) = replicate (100 + n) (CHR ''a'')"
proof -
  let ?s = "replicate (100 + n) (CHR ''a'')"
  have ns: "\<forall>c \<in> set ?s. \<not> isspace c" by (simp add: isspace_def)
  have ne: "?s \<noteq> []" by simp
  have "split_ws ?s = [?s]" using words_of_nospace_string [OF ns, of "[]"] by (simp add: split_ws_def)
  then show ?thesis
    using strip_nospace [OF ns] clean_html_nospace [OF ne ns] by (simp add: clean_article_text_def)
qed

lemma hash_of_numbered:
  "hash_of Some sha (numbered_article n) = sha (''quantum leap'' @ replicate (100 + n) (CHR ''a''))"
proof -
  let ?s = "replicate (100 + n) (CHR ''a'')"
  have ns: "\<forall>c \<in> set ?s. \<not> isspace c" by (simp add: isspace_def)
  have "lower ?s = ?s" by (simp add: lower_def lower_char_def is_upper_def)
  moreover have "lower (strip ''Quantum Leap'') = ''quantum leap''"
    by (simp add: lower_def lower_char_def is_upper_def strip_def isspace_def)
  ultimately show ?thesis
    using strip_nospace [OF ns]
    by (simp add: hash_of_def numbered_article_def raw1_def create_article_hash_def
        clean_article_text_numbered)
qed

lemma numbered_hashes_distinct:
  "distinct (map (\<lambda>n. hash_of Some (id :: string \<Rightarrow> string) (numbered_article n)) [0..<k])"
proof -
  have "inj_on (\<lambda>n. ''quantum leap'' @ replicate (100 + n) (CHR ''a'')) (set [0..<k])"
  proof (rule inj_onI)
    fix m n
    assume "''quantum leap'' @ replicate (100 + m) (CHR ''a'')
              = ''quantum leap'' @ replicate (100 + n) (CHR ''a'')"
    then have "length (replicate (100 + m) (CHR ''a'')) = length (replicate (100 + n) (CHR ''a''))"
      by (simp only: same_append_eq)
    then show "m = n" by simp
  qed
  then show ?thesis by (simp add: distinct_map hash_of_numbered)
qed

lemma numbered_articles_fill_cache:
  assumes "distinct (map (\<lambda>n. hash_of Some sha256_hex (numbered_article n)) [0..<k])"
  shows "card (seen_hashes (snd (process_messages Some sha256_hex
            (map (\<lambda>n. (at_time (int n), Some (numbered_article n))) [0..<k]) fresh))) = k"
proof -
  let ?eas = "map (\<lambda>n. (at_time (int n), numbered_article n)) [0..<k]"
  have msgs: "map (\<lambda>n. (at_time (int n), Some (numbered_article n))) [0..<k]
                = map (\<lambda>(e, a). (e, Some a)) ?eas" by simp
  have fin: "finite (seen_hashes fresh)" by (simp add: fresh_def)
  have inv: "dom (redis fresh) \<subseteq> (\<lambda>h. dedup_key_prefix @ h) ` seen_hashes fresh"
    by (simp add: fresh_def)
  have acc: "\<forall>(e, a) \<in> set ?eas. clean_article_text Some (r_content a) \<noteq> []"
    by (auto simp: numbered_article_def clean_article_text_numbered simp del: replicate.simps)
  have dist: "distinct (map (\<lambda>(e, a). hash_of Some sha256_hex a) ?eas)"
    using assms by (simp add: comp_def)
  have new: "\<forall>(e, a) \<in> set ?eas. hash_of Some sha256_hex a \<notin> seen_hashes fresh"
    by (simp add: fresh_def)
  have "card (seen_hashes (snd (process_messages Some sha256_hex (map (\<lambda>(e, a). (e, Some a)) ?eas) fresh)))
          = card (seen_hashes fresh) + length ?eas"
    using fin inv acc dist new by (rule seen_hashes_grow)
  then show ?thesis by (simp only: msgs) (simp add: fresh_def)
qed

lemma process_article_accepted:
  assumes "clean_article_text ch (r_content a) \<noteq> []"
  shows "process_article ch sha e (Some a) d =
    (Inr \<lparr>c_id = r_id a, c_url = r_url a, c_title = strip (r_title a),
          c_text = clean_article_text ch (r_content a), c_author = r_author a,
          c_source = r_source a, c_published_at = r_published_at a,
          c_scraped_at = r_scraped_at a, c_content_hash = hash_of ch sha a,
          c_is_duplicate = fst (is_duplicate e (hash_of ch sha a) d),
          c_metadata = r_metadata a\<rparr>,
     snd (is_duplicate e (hash_of ch sha a) d))"
  using assms by (simp add: process_article_def hash_of_def Let_def split_beta)

lemma is_duplicate_store_write:
  assumes "h \<notin> seen_hashes d"
      and "\<not> redis_exists (now e) (redis d) (dedup_key_prefix @ h)"
      and "fault e = Redis_ok" and "0 < dedup_window_hours d"
  shows "redis (snd (is_duplicate e h d)) (dedup_key_prefix @ h)
           = Some (now e + dedup_window_hours d * 3600)"
  using assms by (simp add: is_duplicate_def Let_def)

lemma is_duplicate_expiry_mono:
  assumes "redis d k = Some t"
  shows "\<exists>t'. redis (snd (is_duplicate e h d)) k = Some t' \<and> t \<le> t'"
proof (cases "snd (is_duplicate e h d) = d \<or> redis (snd (is_duplicate e h d)) = redis d")
  case True
  then show ?thesis using assms by auto
next
  case False
  then have w: "\<not> redis_exists (now e) (redis d) (dedup_key_prefix @ h)"
    and ttl: "0 < dedup_window_hours d * 3600"
    and r: "redis (snd (is_duplicate e h d))
              = (redis d)(dedup_key_prefix @ h \<mapsto> now e + dedup_window_hours d * 3600)"
    by (auto simp: is_duplicate_def local_fallback_def Let_def split: if_splits)
  show ?thesis
  proof (cases "k = dedup_key_prefix @ h")
    case True
    then have "t \<le> now e" using w assms by (simp add: redis_exists_def)
    then show ?thesis using r True ttl by simp
  next
    case False
    then show ?thesis using r assms by simp
  qed
qed

lemma process_message_expiry_mono:
  assumes "redis d k = Some t"
  shows "\<exists>t'. redis (snd (process_message ch sha e m d)) k = Some t' \<and> t \<le> t'"
  using assms is_duplicate_expiry_mono [OF assms]
  by (auto simp: process_message_state split: option.splits)

lemma process_messages_expiry_mono:
  "redis d k = Some t \<Longrightarrow> \<exists>t'. redis (snd (process_messages ch sha ms d)) k = Some t' \<and> t \<le> t'"
proof (induction ms arbitrary: d t)
  case Nil
  then show ?case by simp
next
  case (Cons m ms)
  obtain e a where m: "m = (e, a)" by (cases m)
  obtain t1 where t1: "redis (snd (process_message ch sha e a d)) k = Some t1" and le1: "t \<le> t1"
    using process_message_expiry_mono [OF Cons.prems] by blast
  obtain t2 where "redis (snd (process_messages ch sha ms (snd (process_message ch sha e a d)))) k = Some t2"
    and "t1 \<le> t2"
    using Cons.IH [OF t1] by blast
  then have "redis (snd (process_messages ch sha (m # ms) d)) k = Some t2" and "t \<le> t2"
    using m le1 by (simp_all only: process_messages_Cons_state)
  then show ?case by blast
qed

lemma is_duplicate_live:
  assumes "fault e \<noteq> Exists_raises" and "redis d (dedup_key_prefix @ h) = Some t" and "now e < t"
  shows "is_duplicate e h d = (True, d)"
  using assms by (simp add: is_duplicate_def redis_exists_def Let_def)

subsection \<open>Duplicates\<close>

text \<open>
  Claim C1, as the code has it. Take two articles whose titles and cleaned texts agree after
  trimming and lowercasing, both with a cleaned text of at least 100 characters, handled in
  this order, with any messages in between. If the hash of the first is neither in the
  in-process set of its worker nor live in the store when the first is handled, and the bus
  accepts its publish, then the first is published, with its id and not marked as
  duplicate. The second is marked as duplicate and not published when it is handled by the
  same worker; and also when it is handled in any other state of the in-process set on the
  same store (another worker), within the window of the first, provided the store took the
  mark of the first and answers for the second.
\<close>

theorem first_published_second_dropped:
  assumes acc_a: "100 \<le> length (clean_article_text ch (r_content a))"
      and acc_b: "100 \<le> length (clean_article_text ch (r_content b))"
      and key: "content_key ch a = content_key ch b"
      and new_local: "hash_of ch sha a \<notin> seen_hashes d"
      and new_store: "\<not> redis_exists (now ea) (redis d) (dedup_key_prefix @ hash_of ch sha a)"
      and sent: "send_ok ea"
      and step_a: "process_message ch sha ea (Some a) d = (out_a, d1)"
      and between: "process_messages ch sha between d1 = (outs, d2)"
      and second: "db = d2
                   \<or> (redis db = redis d2 \<and> fault ea = Redis_ok \<and> 0 < dedup_window_hours d
                      \<and> fault eb \<noteq> Exists_raises
                      \<and> now eb < now ea + dedup_window_hours d * 3600)"
  shows "(\<exists>ca. out_a = Some ca \<and> c_id ca = r_id a \<and> \<not> c_is_duplicate ca
               \<and> c_content_hash ca = hash_of ch sha a)
         \<and> (\<exists>cb. fst (process_article ch sha eb (Some b) db) = Inr cb
                \<and> c_id cb = r_id b \<and> c_is_duplicate cb)
         \<and> fst (process_message ch sha eb (Some b) db) = None"
proof -
  let ?h = "hash_of ch sha a"
  have ne_a: "clean_article_text ch (r_content a) \<noteq> []" using acc_a by auto
  have ne_b: "clean_article_text ch (r_content b) \<noteq> []" using acc_b by auto
  have hb: "hash_of ch sha b = ?h" using same_key_same_hash [OF key] by simp
  have dup_a: "fst (is_duplicate ea ?h d) = False"
    and seen_a: "seen_hashes (snd (is_duplicate ea ?h d)) = insert ?h (seen_hashes d)"
    using is_duplicate_new [OF new_local new_store] by simp_all
  have a: "out_a = Some \<lparr>c_id = r_id a, c_url = r_url a, c_title = strip (r_title a),
                    c_text = clean_article_text ch (r_content a), c_author = r_author a,
                    c_source = r_source a, c_published_at = r_published_at a,
                    c_scraped_at = r_scraped_at a, c_content_hash = ?h,
                    c_is_duplicate = False, c_metadata = r_metadata a\<rparr>"
    and d1: "d1 = snd (is_duplicate ea ?h d)"
    using step_a dup_a sent by (simp_all add: process_message_accepted [OF ne_a] Let_def)
  have d2: "d2 = snd (process_messages ch sha between d1)" using between by simp
  have dup_b: "is_duplicate eb ?h db = (True, db)"
    using second
  proof
    assume same: "db = d2"
    have "?h \<in> seen_hashes d1" using d1 seen_a by simp
    moreover have "seen_hashes d1 \<subseteq> seen_hashes d2"
      using process_messages_mono [of d1 ch sha between] d2 by simp
    ultimately have "?h \<in> seen_hashes db" using same by blast
    then show ?thesis by (rule is_duplicate_seen)
  next
    assume other: "redis db = redis d2 \<and> fault ea = Redis_ok \<and> 0 < dedup_window_hours d
                     \<and> fault eb \<noteq> Exists_raises
                     \<and> now eb < now ea + dedup_window_hours d * 3600"
    have "redis d1 (dedup_key_prefix @ ?h) = Some (now ea + dedup_window_hours d * 3600)"
      using is_duplicate_store_write [OF new_local new_store] other d1 by simp
    then obtain t where t: "redis d2 (dedup_key_prefix @ ?h) = Some t"
      and le: "now ea + dedup_window_hours d * 3600 \<le> t"
      using process_messages_expiry_mono [of d1 _ _ ch sha between] d2 by blast
    have "redis db (dedup_key_prefix @ ?h) = Some t" using t other by simp
    moreover have "now eb < t" using le other by linarith
    ultimately show ?thesis using other is_duplicate_live by blast
  qed
  have art_b: "fst (process_article ch sha eb (Some b) db) =
      Inr \<lparr>c_id = r_id b, c_url = r_url b, c_title = strip (r_title b),
          c_text = clean_article_text ch (r_content b), c_author = r_author b,
          c_source = r_source b, c_published_at = r_published_at b,
          c_scraped_at = r_scraped_at b, c_content_hash = ?h,
          c_is_duplicate = True, c_metadata = r_metadata b\<rparr>"
    using dup_b hb by (simp add: process_article_accepted [OF ne_b])
  have msg_b: "fst (process_message ch sha eb (Some b) db) = None"
    using dup_b hb by (simp add: process_message_accepted [OF ne_b] Let_def)
  show ?thesis using a art_b msg_b by simp
qed

theorem first_published_second_dropped_witness:
  "100 \<le> length (clean_article_text Some (r_content raw1))
   \<and> 100 \<le> length (clean_article_text Some (r_content raw2))
   \<and> content_key Some raw1 = content_key Some raw2
   \<and> hash_of Some id raw1 \<notin> seen_hashes fresh
   \<and> \<not> redis_exists (now (at_time 0)) (redis fresh) (dedup_key_prefix @ hash_of Some id raw1)
   \<and> send_ok (at_time 0)
   \<and> fault (at_time 0) = Redis_ok \<and> 0 < dedup_window_hours fresh
   \<and> fault (at_time 7200) \<noteq> Exists_raises
   \<and> now (at_time 7200) < now (at_time 0) + dedup_window_hours fresh * 3600
   \<and> (\<exists>ca. fst (process_message Some id (at_time 0) (Some raw1) fresh) = Some ca
             \<and> c_id ca = r_id raw1 \<and> \<not> c_is_duplicate ca
             \<and> c_content_hash ca = hash_of Some id raw1)
   \<and> (\<exists>cb. fst (process_article Some id (at_time 7200) (Some raw2)
                  ((snd (process_messages Some id [(at_time 60, Some raw_short)]
                          (snd (process_message Some id (at_time 0) (Some raw1) fresh))))
                   \<lparr>seen_hashes := {}\<rparr>)) = Inr cb
             \<and> c_id cb = r_id raw2 \<and> c_is_duplicate cb)
   \<and> fst (process_message Some id (at_time 7200) (Some raw2)
            ((snd (process_messages Some id [(at_time 60, Some raw_short)]
                    (snd (process_message Some id (at_time 0) (Some raw1) fresh))))
             \<lparr>seen_hashes := {}\<rparr>)) = None"
proof -
  let ?d2 = "snd (process_messages Some id [(at_time 60, Some raw_short)]
                    (snd (process_message Some id (at_time 0) (Some raw1) fresh)))"
  have h1: "100 \<le> length (clean_article_text Some (r_content raw1))" by (simp add: eval_defs)
  have h2: "100 \<le> length (clean_article_text Some (r_content raw2))" by (simp add: eval_defs)
  have h3: "content_key Some raw1 = content_key Some raw2" by (simp add: content_key_def eval_defs)
  have h4: "hash_of Some id raw1 \<notin> seen_hashes fresh" by (simp add: fresh_def)
  have h5: "\<not> redis_exists (now (at_time 0)) (redis fresh) (dedup_key_prefix @ hash_of Some id raw1)"
    by (simp add: fresh_def redis_exists_def)
  have h6: "send_ok (at_time 0)" by (simp add: at_time_def)
  have w: "fault (at_time 0) = Redis_ok \<and> 0 < dedup_window_hours fresh
           \<and> fault (at_time 7200) \<noteq> Exists_raises
           \<and> now (at_time 7200) < now (at_time 0) + dedup_window_hours fresh * 3600"
    by (simp add: at_time_def fresh_def)
  have h7: "?d2\<lparr>seen_hashes := {}\<rparr> = ?d2
            \<or> (redis (?d2\<lparr>seen_hashes := {}\<rparr>) = redis ?d2 \<and> fault (at_time 0) = Redis_ok
                \<and> 0 < dedup_window_hours fresh \<and> fault (at_time 7200) \<noteq> Exists_raises
                \<and> now (at_time 7200) < now (at_time 0) + dedup_window_hours fresh * 3600)"
    using w by simp
  show ?thesis
    using h1 h2 h3 h4 h5 h6 w
      first_published_second_dropped [OF h1 h2 h3 h4 h5 h6 surjective_pairing
        surjective_pairing h7]
    by blast
qed

text \<open>
  Claim C1 as stated fails. Of a pair with the same title and text, none is published when
  the text is too short, when the hash was already seen before the pair, or when the bus
  refuses the publish of the first; and both are published when the store is unreachable
  and the second is handled by a worker whose in-process set does not hold the hash.
\<close>

theorem identical_pair_not_exactly_one:
  "fst (process_messages Some id [(at_time 0, Some raw_short), (at_time 1, Some raw_short)] fresh) = []
   \<and> fst (process_messages Some id [(at_time 1, Some raw1), (at_time 2, Some raw2)]
           (snd (process_messages Some id [(at_time 0, Some raw1)] fresh))) = []
   \<and> fst (process_messages Some id [((at_time 0)\<lparr>send_ok := False\<rparr>, Some raw1), (at_time 1, Some raw2)] fresh) = []
   \<and> length (fst (process_messages Some id [(redis_down 0, Some raw1)] fresh))
       + length (fst (process_messages Some id [(redis_down 60, Some raw2)]
                  ((snd (process_messages Some id [(redis_down 0, Some raw1)] fresh))
                   \<lparr>seen_hashes := {}\<rparr>))) = 2"
  by (simp add: eval_defs redis_down_def)

subsection \<open>Short articles\<close>

text \<open>
  Claim C2. A raw article whose text, after the markup is stripped and the whitespace
  collapsed, has fewer than 100 characters is not published and leaves the worker's state
  as it was; the loop goes on, and the messages around it are handled exactly as if it had
  not been there.
\<close>

theorem short_article_dropped:
  assumes cleaned: "clean_html get_text (r_content a) = Some t"
      and short: "length (strip (join '' '' (split_ws t))) < 100"
  shows "process_message get_text sha e (Some a) d = (None, d)
         \<and> process_messages get_text sha (before @ (e, Some a) # after) d
             = process_messages get_text sha (before @ after) d"
proof -
  have "clean_article_text get_text (r_content a) = []"
    using cleaned short by (simp add: clean_article_text_def)
  then have one: "process_message get_text sha e (Some a) d' = (None, d')" for d'
    by (simp add: process_message_def process_article_def)
  then have "process_messages get_text sha ((e, Some a) # after) d'
               = process_messages get_text sha after d'" for d'
    by simp
  then have "process_messages get_text sha (before @ (e, Some a) # after) d
               = process_messages get_text sha (before @ after) d"
    by (simp add: process_messages_append)
  with one show ?thesis by simp
qed

theorem short_article_dropped_witness:
  "clean_html Some (r_content raw_short) = Some ''Too short.''
   \<and> length (strip (join '' '' (split_ws ''Too short.''))) < 100
   \<and> process_message Some id (at_time 60) (Some raw_short) fresh = (None, fresh)
   \<and> process_messages Some id ([(at_time 0, Some raw1)] @ (at_time 60, Some raw_short) # [(at_time 120, Some raw2)]) fresh
       = process_messages Some id ([(at_time 0, Some raw1)] @ [(at_time 120, Some raw2)]) fresh"
proof -
  have h1: "clean_html Some (r_content raw_short) = Some ''Too short.''"
    by (simp add: raw_short_def clean_html_def splitlines_def is_linebreak_def strip_def isspace_def)
  have h2: "length (strip (join '' '' (split_ws ''Too short.''))) < 100"
    by (simp add: split_ws_def strip_def isspace_def)
  show ?thesis using h1 h2 short_article_dropped [of Some raw_short, OF h1 h2] by blast
qed

subsection \<open>The content hash\<close>

text \<open>
  Claim C3. For every title and text, \<open>create_article_hash\<close> is the digest of the
  lowercased, trimmed title followed by the lowercased, trimmed text; and the
  \<open>content_hash\<close> of every cleaned article is this digest of the raw title and the cleaned
  text that the article carries.
\<close>

theorem content_hash_is_sha256_of_key:
  "create_article_hash sha256_hex title text = sha256_hex (lower (strip title) @ lower (strip text))
   \<and> (process_article get_text sha256_hex e (Some a) d = (Inr ca, d')
        \<longrightarrow> c_text ca = clean_article_text get_text (r_content a)
            \<and> c_content_hash ca = sha256_hex (lower (strip (r_title a)) @ lower (strip (c_text ca))))"
  by (auto simp: create_article_hash_def process_article_def Let_def split: if_splits prod.splits)

theorem content_hash_is_sha256_of_key_witness:
  "\<exists>ca d'. process_article Some id (at_time 0) (Some raw2) fresh = (Inr ca, d')
      \<and> c_content_hash ca = ''quantum leap'' @ lower exoplanets"
proof -
  obtain ca d' where run: "process_article Some id (at_time 0) (Some raw2) fresh = (Inr ca, d')"
    by (simp add: eval_defs)
  have "c_text ca = clean_article_text Some (r_content raw2)
        \<and> c_content_hash ca = id (lower (strip (r_title raw2)) @ lower (strip (c_text ca)))"
    using content_hash_is_sha256_of_key [of id, THEN conjunct2, rule_format, OF run] .
  then have "c_content_hash ca = ''quantum leap'' @ lower exoplanets"
    by (simp add: eval_defs)
  with run show ?thesis by blast
qed

subsection \<open>Accepted articles have words\<close>

text \<open>
  Claim C9. Every cleaned article that \<open>process_article\<close> returns has a text of at least
  100 characters, and the normalized article made from it has a \<open>word_count\<close> of at
  least 1.
\<close>

theorem accepted_article_has_words:
  assumes "process_article get_text sha256_hex e (Some a) d = (Inr ca, d')"
  shows "100 \<le> length (c_text ca)
         \<and> (\<exists>na. normalize_article nz (Some ca) = Inr na \<and> 1 \<le> n_word_count na)"
proof -
  have body: "c_text ca = clean_article_text get_text (r_content a)"
    and ne: "clean_article_text get_text (r_content a) \<noteq> []"
    using assms by (auto simp: process_article_def Let_def split: if_splits prod.splits)
  obtain s where s: "c_text ca = strip s" using body clean_article_text_strip [of get_text] by metis
  have "1 \<le> count_words (c_text ca)" using s ne body count_words_pos [of s] by simp
  moreover have "100 \<le> length (c_text ca)" using body clean_article_text_length [OF ne] by simp
  ultimately show ?thesis by (simp add: normalize_article_def Let_def)
qed

theorem accepted_article_has_words_witness:
  "\<exists>ca d'. process_article Some id (at_time 0) (Some raw1) fresh = (Inr ca, d')
      \<and> 100 \<le> length (c_text ca)
      \<and> (\<exists>na. normalize_article plain_normalizer (Some ca) = Inr na \<and> 1 \<le> n_word_count na)"
proof -
  obtain ca d' where run: "process_article Some id (at_time 0) (Some raw1) fresh = (Inr ca, d')"
    by (simp add: eval_defs)
  show ?thesis using run accepted_article_has_words [OF run, of plain_normalizer] by blast
qed

subsection \<open>The in-process cache\<close>

text \<open>
  Claim C8 does not hold of the consume loop: \<open>process_messages\<close> never calls
  \<open>cleanup_cache\<close>, so the set only grows. After 10,001 accepted articles with pairwise
  different texts, handled by a worker that started empty, it holds 10,001 entries (for
  any digest that gives these articles pairwise different hashes).
\<close>

theorem cache_exceeds_bound:
  assumes "distinct (map (\<lambda>n. hash_of Some sha256_hex (numbered_article n)) [0..<10001])"
  shows "card (seen_hashes (snd (process_messages Some sha256_hex
            (map (\<lambda>n. (at_time (int n), Some (numbered_article n))) [0..<10001]) fresh))) = 10001"
  using assms by (rule numbered_articles_fill_cache)

theorem cache_exceeds_bound_witness:
  "distinct (map (\<lambda>n. hash_of Some (id :: string \<Rightarrow> string) (numbered_article n)) [0..<10001])
   \<and> card (seen_hashes (snd (process_messages Some id
            (map (\<lambda>n. (at_time (int n), Some (numbered_article n))) [0..<10001]) fresh))) = 10001"
  by (intro conjI numbered_hashes_distinct cache_exceeds_bound)

section \<open>Properties of the enricher in pass-through mode\<close>

text \<open>
  Claim C4, as the code has it. In pass-through mode the enriched article is a function of the
  normalized article and of the clock reading taken at the call: two runs on the same
  article agree in every field but \<open>metadata\<close>, their metadata agree under every key
  but \<open>enrichment\<close>, and the \<open>enrichment\<close> block holds the time of the call with the
  model names \<open>pass-through\<close> and \<open>none\<close>. With the same clock reading the two records are
  equal.
\<close>

theorem pass_through_depends_on_clock_only_in_enriched_at:
  "(enrich_article_pass_through t1 na)\<lparr>e_metadata := Map.empty\<rparr>
     = (enrich_article_pass_through t2 na)\<lparr>e_metadata := Map.empty\<rparr>
   \<and> (\<forall>k. k \<noteq> ''enrichment'' \<longrightarrow>
          e_metadata (enrich_article_pass_through t1 na) k
            = e_metadata (enrich_article_pass_through t2 na) k)
   \<and> e_metadata (enrich_article_pass_through t1 na) ''enrichment''
       = Some (JObj [(''enriched_at'', JStr t1), (''model'', JStr ''pass-through''),
                     (''embedding_model'', JStr ''none'')])
   \<and> (t1 = t2 \<longrightarrow> enrich_article_pass_through t1 na = enrich_article_pass_through t2 na)"
  by (simp add: enrich_article_pass_through_def)

theorem pass_through_depends_on_clock_only_in_enriched_at_witness:
  "''normalization'' \<noteq> ''enrichment''
   \<and> e_metadata (enrich_article_pass_through ''2025-01-15T10:00:00'' normalized1) ''normalization''
       = e_metadata (enrich_article_pass_through ''2025-01-15T10:00:01'' normalized1) ''normalization''
   \<and> e_summary (enrich_article_pass_through ''2025-01-15T10:00:00'' normalized1) = exoplanets"
  using pass_through_depends_on_clock_only_in_enriched_at
          [of "''2025-01-15T10:00:00''" normalized1 "''2025-01-15T10:00:01''"]
  by (simp add: enrich_article_pass_through_def normalized1_def exoplanets_def)

text \<open>
  Claim C4 as stated fails: the same article enriched one second later gives another record.
\<close>

theorem pass_through_output_changes_with_time:
  "enrich_article_pass_through ''2025-01-15T10:00:00'' normalized1
     \<noteq> enrich_article_pass_through ''2025-01-15T10:00:01'' normalized1"
proof
  assume "enrich_article_pass_through ''2025-01-15T10:00:00'' normalized1
            = enrich_article_pass_through ''2025-01-15T10:00:01'' normalized1"
  then have "e_metadata (enrich_article_pass_through ''2025-01-15T10:00:00'' normalized1) ''enrichment''
               = e_metadata (enrich_article_pass_through ''2025-01-15T10:00:01'' normalized1) ''enrichment''"
    by simp
  then show False by (simp add: enrich_article_pass_through_def)
qed

section \<open>Properties of the search operation\<close>

lemma mock_article_invalid: "d \<in> set MOCK_ARTICLES \<Longrightarrow> EnrichedArticle_of d = None"
  by (auto simp: MOCK_ARTICLES_def EnrichedArticle_of_def req_str_def)

lemma filter_opt_subset: "filter_opt p xs = Some ys \<Longrightarrow> set ys \<subseteq> set xs"
  by (induction xs arbitrary: ys) (auto split: option.splits if_splits)

lemma those_all_None:
  "those (map f xs) = Some ys \<Longrightarrow> \<forall>x \<in> set xs. f x = None \<Longrightarrow> xs = [] \<and> ys = []"
  by (cases xs) auto

lemma mock_filter_subset:
  assumes "mock_filter sr = Some ds"
  shows "set ds \<subseteq> set MOCK_ARTICLES"
proof -
  obtain f1 f2 f3 where
    f1: "(if sr_query sr \<noteq> [] then filter_opt (mock_matches_query (sr_query sr)) MOCK_ARTICLES
          else Some MOCK_ARTICLES) = Some f1"
    and f2: "(if truthy (sr_topics sr) then filter_opt (mock_matches_topics (the (sr_topics sr))) f1
          else Some f1) = Some f2"
    and f3: "(if truthy (sr_sources sr) then filter_opt (mock_matches_sources (the (sr_sources sr))) f2
          else Some f2) = Some f3"
    and f4: "(case sr_sentiment sr of None \<Rightarrow> Some f3
              | Some s \<Rightarrow> filter_opt (mock_matches_sentiment s) f3) = Some ds"
    using assms unfolding mock_filter_def by (auto simp: bind_eq_Some_conv)
  have "set f1 \<subseteq> set MOCK_ARTICLES" using f1 filter_opt_subset by (fastforce split: if_splits)
  moreover have "set f2 \<subseteq> set f1" using f2 filter_opt_subset by (fastforce split: if_splits)
  moreover have "set f3 \<subseteq> set f2" using f3 filter_opt_subset by (fastforce split: if_splits)
  moreover have "set ds \<subseteq> set f3" using f4 filter_opt_subset by (fastforce split: option.splits)
  ultimately show ?thesis by blast
qed

lemma mock_search_empty:
  assumes "mock_search sr = Some response"
  shows "resp_articles response = []"
proof -
  obtain ds articles where ds: "mock_filter sr = Some ds"
    and arts: "those (map EnrichedArticle_of ds) = Some articles"
    and resp: "resp_articles response
                = slice (nat ((sr_page sr - 1) * sr_size sr))
                    (nat ((sr_page sr - 1) * sr_size sr + sr_size sr)) articles"
    using assms unfolding mock_search_def Let_def by (auto simp: bind_eq_Some_conv)
  have "\<forall>d \<in> set ds. EnrichedArticle_of d = None"
    using mock_filter_subset [OF ds] mock_article_invalid by blast
  then have "articles = []" using those_all_None [OF arts] by simp
  then show ?thesis using resp by (simp add: slice_def)
qed

lemma EnrichedArticle_of_published_at:
  "EnrichedArticle_of d = Some a \<Longrightarrow> req_time d ''published_at'' = Some (e_published_at a)"
  unfolding EnrichedArticle_of_def by (auto simp: bind_eq_Some_conv)

lemma those_published_times:
  "those (map EnrichedArticle_of ds) = Some as \<Longrightarrow> map e_published_at as = published_times ds"
proof (induction ds arbitrary: as)
  case Nil
  then show ?case by (simp add: published_times_def map_filter_simps)
next
  case (Cons d ds)
  then obtain a as' where a: "EnrichedArticle_of d = Some a"
    and rest: "those (map EnrichedArticle_of ds) = Some as'" and as: "as = a # as'"
    by (auto split: option.splits)
  have "map e_published_at as' = published_times ds" using rest by (rule Cons.IH)
  then show ?case
    using as EnrichedArticle_of_published_at [OF a] by (simp add: published_times_def map_filter_simps)
qed

lemma store_search_sorted:
  assumes "honours_sort es" and "store_search es sr = Some response"
  shows "descending (map e_published_at (resp_articles response))"
proof -
  let ?body = "\<lparr>b_query = build_elasticsearch_query sr, b_sort = [(''published_at'', Desc)],
                 b_from = (sr_page sr - 1) * sr_size sr, b_size = sr_size sr\<rparr>"
  obtain r articles where r: "es ?body = Some r"
    and arts: "those (map EnrichedArticle_of (hits r)) = Some articles"
    and resp: "resp_articles response = articles"
    using assms(2) unfolding store_search_def Let_def by (auto simp: bind_eq_Some_conv)
  have "descending (published_times (hits r))"
    using assms(1) r unfolding honours_sort_def by (metis es_body.select_convs(2))
  then show ?thesis using those_published_times [OF arts] resp by simp
qed

lemma published_times_append: "published_times (xs @ ys) = published_times xs @ published_times ys"
  by (simp add: published_times_def map_filter_def)

lemma published_times_absent:
  "\<forall>d \<in> set ds. req_time d ''published_at'' = None \<Longrightarrow> published_times ds = []"
  by (simp add: published_times_def map_filter_def)

lemma published_times_present:
  "\<forall>d \<in> set ds. req_time d ''published_at'' \<noteq> None
     \<Longrightarrow> published_times ds = map (time_key ''published_at'') ds"
  by (induction ds) (auto simp: published_times_def map_filter_simps time_key_def)

lemma descending_slice: "descending ts \<Longrightarrow> descending (take n (drop m ts))"
  by (simp add: descending_def sorted_wrt_take sorted_wrt_drop)

lemma descending_rev_sort_key: "descending (map f (rev (sort_key f xs)))"
proof -
  have "sorted (map f (sort_key f xs))" by (rule sorted_sort_key)
  then show ?thesis by (simp add: descending_def rev_map [symmetric] sorted_wrt_rev)
qed

lemma es_search_honours_sort: "honours_sort (es_search fulltext took_ms store)"
  unfolding honours_sort_def
proof (intro allI impI, elim conjE)
  fix body response
  assume run: "es_search fulltext took_ms store body = Some response"
    and srt: "b_sort body = [(''published_at'', Desc)]"
  let ?k = "''published_at''"
  let ?matching = "[d \<leftarrow> store. doc_matches fulltext (b_query body) d]"
  let ?present = "rev (sort_key (time_key ?k) [d \<leftarrow> ?matching. req_time d ?k \<noteq> None])"
  let ?absent = "[d \<leftarrow> ?matching. req_time d ?k = None]"
  let ?m = "nat (b_from body)"
  let ?n = "nat (b_from body + b_size body) - nat (b_from body)"
  have hits: "hits response = take ?n (drop ?m (?present @ ?absent))"
    using run srt by (auto simp: es_search_def es_sort_def slice_def Let_def)
  have p: "\<forall>d \<in> set (take ?n (drop ?m ?present)). req_time d ?k \<noteq> None"
    by (auto dest!: in_set_takeD in_set_dropD)
  have a: "\<forall>d \<in> set (take (?n - length (drop ?m ?present)) (drop (?m - length ?present) ?absent)).
             req_time d ?k = None"
    by (auto dest!: in_set_takeD in_set_dropD)
  have "published_times (hits response)
          = published_times (take ?n (drop ?m ?present))
            @ published_times (take (?n - length (drop ?m ?present)) (drop (?m - length ?present) ?absent))"
    by (simp only: hits drop_append take_append published_times_append)
  also have "\<dots> = map (time_key ?k) (take ?n (drop ?m ?present))"
    by (simp only: published_times_present [OF p] published_times_absent [OF a] append_Nil2)
  also have "\<dots> = take ?n (drop ?m (map (time_key ?k) ?present))"
    by (simp only: take_map drop_map)
  finally have "published_times (hits response) = take ?n (drop ?m (map (time_key ?k) ?present))" .
  then show "descending (published_times (hits response))"
    using descending_slice [OF descending_rev_sort_key] by simp
qed

lemma empty_query_is_match_all:
  "build_elasticsearch_query empty_query_request = \<lparr>bq_must = [Match_all], bq_filter = []\<rparr>
   \<and> doc_matches fulltext (build_elasticsearch_query empty_query_request) d"
  by (simp add: build_elasticsearch_query_def empty_query_request_def truthy_def doc_matches_def
      clause_matches_def)

lemma store_search_sample:
  "case search_articles (Some (es_search (\<lambda>q d. True) 3 sample_store)) empty_query_request of
     Inl err \<Rightarrow> False
   | Inr r \<Rightarrow> map e_id (resp_articles r) = [''2'', ''3'', ''1'']"
  by code_simp


text \<open>
  Claim C10 does not hold in mock mode: with an empty query and no filter the handler keeps
  the whole mock corpus, fails to validate its first article and answers with status 500.
  With a store the claim holds (\<open>empty_query_is_match_all\<close>).
\<close>

theorem mock_search_fails_on_empty_query:
  "search_articles None empty_query_request = Inl (HTTPException 500)"
  by (simp add: search_articles_def empty_query_request_def mock_search_def mock_filter_def
      truthy_def MOCK_ARTICLES_def EnrichedArticle_of_def req_str_def)

end
